theory Spec2Isabelle
  imports Complex_Main "HOL-Library.Word"
begin

unbundle bit_operations_syntax

section \<open>Data model\<close>

text \<open>
  The program (\<^verbatim>\<open>main.go\<close>) rewrites image files in place. Its functions act on
  the file system and on the two output streams, so the model threads an explicit
  state through every call. Library code the program calls (image codecs, MD5, Unicode
  case mapping, path cleaning, float64 rounding) is not part of the repository: it is
  collected in a record of functions, \<open>env\<close>, over which every theorem is universally
  quantified.
\<close>

type_synonym bytes = "8 word list"

text \<open>\<^verbatim>\<open>os.DirEntry\<close>: the two accessors the walk reads.\<close>

record DirEntry =
  Name :: string
  IsDir :: bool

text \<open>A path names a regular file with its content, or a directory with its listing
  (in the order \<^verbatim>\<open>os.ReadDir\<close> returns it). Every path has a node of its own: the
  file system of the model has no symbolic and no hard links, so a write at one path
  shows at that path only. The claims below read a file back only at the path it was
  written at, and describe the walk by the calls it makes.\<close>

datatype node = File bytes | Dir "DirEntry list"

text \<open>The inner error wrapped by the \<^verbatim>\<open>%w\<close> of each \<^verbatim>\<open>fmt.Errorf\<close>.\<close>

datatype cause =
    OpenError | StatError | ReadError | CreateError | ReadDirError
  | DecodeError | EncodeError

text \<open>The errors \<^verbatim>\<open>processFile\<close> and \<^verbatim>\<open>processDirectory\<close> return, one per
  \<^verbatim>\<open>fmt.Errorf\<close> of the source.\<close>

datatype error =
    UnsupportedFileExtension string
  | FailedToCalculateOriginalChecksum cause
  | FailedToDecodeImage cause
  | FailedToCreateOutputFile cause
  | FailedToSaveImage cause
  | FailedToCalculateNewChecksum cause
  | FailedToReadDirectory cause

text \<open>\<^verbatim>\<open>png.CompressionLevel\<close> and its four constants.\<close>

datatype CompressionLevel = DefaultCompression | NoCompression | BestSpeed | BestCompression

text \<open>Lines written to standard output (\<^verbatim>\<open>fmt.Printf\<close>) and to standard error
  (\<^verbatim>\<open>fmt.Fprintf(os.Stderr, ...)\<close>), one constructor per format string. The flag of
  \<open>ProcessedLine\<close> is the change symbol: \<open>True\<close> for the check mark, \<open>False\<close> for the
  cross.\<close>

datatype out_line =
    JpegQualityAdjustment int int
  | ProcessedVerbose string
  | OriginalChecksum string
  | NewChecksum string
  | ChecksumChanged bool
  | ProcessedLine string bool

datatype err_line =
    ErrorProcessingDirectory string error
  | ErrorProcessingFile string error

text \<open>A \<^verbatim>\<open>float64\<close> value: a finite number, an infinity or NaN.\<close>

datatype float64 = Finite real | PosInf | NegInf | NaN

text \<open>
  The state of a run. \<open>faults\<close> lists, in order, the outcome of every fallible system
  call still to come (\<open>True\<close>: the call fails although the path exists, as a permission or
  device error would make it); once the list is exhausted, calls fail only for the reasons
  the file system itself gives.
\<close>

record state =
  fs :: "string \<Rightarrow> node option"
  faults :: "bool list"
  stdout :: "out_line list"
  stderr :: "err_line list"

text \<open>
  The libraries and the global flag. \<open>verbose\<close> is the package variable set by
  \<^verbatim>\<open>--verbose\<close>, read-only during a run; the other package variable,
  \<^verbatim>\<open>recursiveDepth\<close>, reaches the walk as its \<open>maxDepth\<close> argument
  (\<^verbatim>\<open>processDirectory(path, 0, recursiveDepth)\<close> in \<^verbatim>\<open>main\<close>). The encoders
  return the bytes they wrote and the error they returned, if any. \<open>float64_round\<close> is
  the rounding of a real number to the nearest \<^verbatim>\<open>float64\<close>, and \<open>dir_Size\<close> the size
  \<^verbatim>\<open>Stat\<close> reports for a directory.
\<close>

record 'img env =
  verbose :: bool
  strings_ToLower :: "string \<Rightarrow> string"
  filepath_Join :: "string \<Rightarrow> string \<Rightarrow> string"
  md5_Sum :: "bytes \<Rightarrow> bytes"
  image_Decode :: "bytes \<Rightarrow> ('img \<times> string) option"
  image_Dx :: "'img \<Rightarrow> 64 word"
  image_Dy :: "'img \<Rightarrow> 64 word"
  float64_round :: "real \<Rightarrow> real"
  dir_Size :: int
  imaging_Decode :: "bytes \<Rightarrow> 'img option"
  imaging_AdjustBrightness :: "'img \<Rightarrow> real \<Rightarrow> 'img"
  jpeg_Encode :: "'img \<Rightarrow> int \<Rightarrow> bytes \<times> cause option"
  png_Encode :: "CompressionLevel \<Rightarrow> 'img \<Rightarrow> bytes \<times> cause option"
  imaging_Save :: "'img \<Rightarrow> string \<Rightarrow> bytes \<times> cause option"

section \<open>Supported extensions\<close>

definition supportedExtensions :: "string \<Rightarrow> bool option" where
  "supportedExtensions =
     [''.jpg'' \<mapsto> True, ''.jpeg'' \<mapsto> True, ''.png'' \<mapsto> True, ''.gif'' \<mapsto> True,
      ''.webp'' \<mapsto> True]"

text \<open>Indexing a Go \<^verbatim>\<open>map[string]bool\<close> with a missing key yields \<^verbatim>\<open>false\<close>.\<close>

definition supported :: "string \<Rightarrow> bool" where
  "supported ext = (case supportedExtensions ext of Some b \<Rightarrow> b | None \<Rightarrow> False)"

text \<open>\<^verbatim>\<open>filepath.Ext\<close>: scan from the end of the path up to the last separator and
  return the suffix that starts at the first dot met, or the empty string.\<close>

fun ext_scan :: "string \<Rightarrow> string \<Rightarrow> string" where
  "ext_scan [] acc = []"
| "ext_scan (c # front) acc =
     (if c = CHR ''/'' then []
      else if c = CHR ''.'' then c # acc
      else ext_scan front (c # acc))"

definition filepath_Ext :: "string \<Rightarrow> string" where
  "filepath_Ext path = ext_scan (rev path) []"

section \<open>System calls\<close>

definition next_fault :: "state \<Rightarrow> bool \<times> state" where
  "next_fault st =
     (case faults st of [] \<Rightarrow> (False, st) | f # later \<Rightarrow> (f, st\<lparr>faults := later\<rparr>))"

definition os_Open :: "string \<Rightarrow> state \<Rightarrow> (cause + node) \<times> state" where
  "os_Open path st =
     (case next_fault st of (f, st1) \<Rightarrow>
        (case fs st1 path of
           None \<Rightarrow> (Inl OpenError, st1)
         | Some n \<Rightarrow> if f then (Inl OpenError, st1) else (Inr n, st1)))"

text \<open>\<^verbatim>\<open>file.Stat().Size()\<close>: the length of a regular file; system-dependent for a
  directory.\<close>

definition file_Stat :: "'img env \<Rightarrow> node \<Rightarrow> state \<Rightarrow> (cause + int) \<times> state" where
  "file_Stat env n st =
     (case next_fault st of (f, st1) \<Rightarrow>
        if f then (Inl StatError, st1)
        else (case n of File bs \<Rightarrow> (Inr (int (length bs)), st1)
                      | Dir es \<Rightarrow> (Inr (dir_Size env), st1)))"

text \<open>Reading an open file to its end; reading a directory fails.\<close>

definition file_ReadAll :: "node \<Rightarrow> state \<Rightarrow> (cause + bytes) \<times> state" where
  "file_ReadAll n st =
     (case next_fault st of (f, st1) \<Rightarrow>
        if f then (Inl ReadError, st1)
        else (case n of File bs \<Rightarrow> (Inr bs, st1) | Dir es \<Rightarrow> (Inl ReadError, st1)))"

text \<open>\<^verbatim>\<open>os.Create\<close>: create or truncate a regular file; it fails on a directory.
  (The program creates only paths it has just read, so the listing of the parent
  directory never changes and the model leaves it alone.)\<close>

definition os_Create :: "string \<Rightarrow> state \<Rightarrow> cause option \<times> state" where
  "os_Create path st =
     (case next_fault st of (f, st1) \<Rightarrow>
        if f then (Some CreateError, st1)
        else (case fs st1 path of
                Some (Dir es) \<Rightarrow> (Some CreateError, st1)
              | _ \<Rightarrow> (None, st1\<lparr>fs := (fs st1)(path \<mapsto> File [])\<rparr>)))"

text \<open>Writing through the handle \<^verbatim>\<open>os.Create\<close> returned appends to the file.\<close>

definition file_Write :: "string \<Rightarrow> bytes \<Rightarrow> state \<Rightarrow> state" where
  "file_Write path out st =
     (case fs st path of
        Some (File old) \<Rightarrow> st\<lparr>fs := (fs st)(path \<mapsto> File (old @ out))\<rparr>
      | _ \<Rightarrow> st)"

definition os_ReadDir :: "string \<Rightarrow> state \<Rightarrow> (cause + DirEntry list) \<times> state" where
  "os_ReadDir path st =
     (case next_fault st of (f, st1) \<Rightarrow>
        if f then (Inl ReadDirError, st1)
        else (case fs st1 path of
                Some (Dir es) \<Rightarrow> (Inr es, st1)
              | _ \<Rightarrow> (Inl ReadDirError, st1)))"

section \<open>Checksum calculator\<close>

definition hextable :: string where
  "hextable = ''0123456789abcdef''"

text \<open>\<^verbatim>\<open>hex.EncodeToString\<close>: two digits per byte, high nibble first.\<close>

fun hex_EncodeToString :: "bytes \<Rightarrow> string" where
  "hex_EncodeToString [] = []"
| "hex_EncodeToString (v # src) =
     hextable ! unat (drop_bit 4 v) # hextable ! unat (v AND 0x0f) # hex_EncodeToString src"

definition calculateFileChecksum ::
  "'img env \<Rightarrow> string \<Rightarrow> state \<Rightarrow> (cause + string) \<times> state" where
  "calculateFileChecksum env path st =
     (case os_Open path st of
        (Inl err, st1) \<Rightarrow> (Inl err, st1)
      | (Inr file, st1) \<Rightarrow>
          (case file_ReadAll file st1 of
             (Inl err, st2) \<Rightarrow> (Inl err, st2)
           | (Inr content, st2) \<Rightarrow> (Inr (hex_EncodeToString (md5_Sum env content)), st2)))"

section \<open>Format estimator\<close>

text \<open>\<^verbatim>\<open>float64(a) / float64(b)\<close> for two integers: both conversions and the quotient
  are rounded; division by \<open>+0\<close> gives an infinity, or NaN for \<open>0 / 0\<close>.\<close>

definition float64_quot :: "'img env \<Rightarrow> int \<Rightarrow> int \<Rightarrow> float64" where
  "float64_quot env a b =
     (if b = 0 then (if a = 0 then NaN else if 0 < a then PosInf else NegInf)
      else Finite (float64_round env
             (float64_round env (of_int a) / float64_round env (of_int b))))"

text \<open>\<^verbatim>\<open>x < c\<close> for a finite constant \<open>c\<close>: false for NaN.\<close>

fun float64_less :: "float64 \<Rightarrow> real \<Rightarrow> bool" where
  "float64_less (Finite x) c = (x < c)"
| "float64_less NegInf c = True"
| "float64_less PosInf c = False"
| "float64_less NaN c = False"

text \<open>The \<^verbatim>\<open>switch\<close> of \<^verbatim>\<open>estimateJpegQuality\<close>.\<close>

definition jpegQualityOf :: "float64 \<Rightarrow> int" where
  "jpegQualityOf bytesPerPixel =
     (if float64_less bytesPerPixel 0.5 then 60
      else if float64_less bytesPerPixel 0.75 then 70
      else if float64_less bytesPerPixel 1.0 then 80
      else if float64_less bytesPerPixel 1.5 then 90
      else 95)"

definition estimateJpegQuality :: "'img env \<Rightarrow> string \<Rightarrow> state \<Rightarrow> int \<times> state" where
  "estimateJpegQuality env filePath st =
     (case os_Open filePath st of
        (Inl err, st1) \<Rightarrow> (75, st1)
      | (Inr file, st1) \<Rightarrow>
          (case file_Stat env file st1 of
             (Inl err, st2) \<Rightarrow> (75, st2)
           | (Inr fileSize, st2) \<Rightarrow>
               (case file_ReadAll file st2 of
                  (Inl err, st3) \<Rightarrow> (75, st3)
                | (Inr content, st3) \<Rightarrow>
                    (case image_Decode env content of
                       None \<Rightarrow> (75, st3)
                     | Some (img, format) \<Rightarrow>
                         if format \<noteq> ''jpeg'' then (75, st3)
                         else
                           let width = image_Dx env img;
                               height = image_Dy env img;
                               pixelCount = width * height;
                               bytesPerPixel = float64_quot env fileSize (sint pixelCount)
                           in (jpegQualityOf bytesPerPixel, st3)))))"

text \<open>The size thresholds of \<^verbatim>\<open>estimatePngCompressionLevel\<close>.\<close>

definition pngLevelOf :: "int \<Rightarrow> CompressionLevel" where
  "pngLevelOf fileSize =
     (if fileSize < 10 * 1024 then NoCompression
      else if fileSize < 100 * 1024 then BestSpeed
      else if fileSize < 1024 * 1024 then DefaultCompression
      else BestCompression)"

definition estimatePngCompressionLevel ::
  "'img env \<Rightarrow> string \<Rightarrow> state \<Rightarrow> CompressionLevel \<times> state" where
  "estimatePngCompressionLevel env filePath st =
     (case os_Open filePath st of
        (Inl err, st1) \<Rightarrow> (DefaultCompression, st1)
      | (Inr file, st1) \<Rightarrow>
          (case file_Stat env file st1 of
             (Inl err, st2) \<Rightarrow> (DefaultCompression, st2)
           | (Inr fileSize, st2) \<Rightarrow> (pngLevelOf fileSize, st2)))"

section \<open>Mutator\<close>

text \<open>\<^verbatim>\<open>imaging.Open\<close>: open the file, read it and decode it.\<close>

definition imaging_Open :: "'img env \<Rightarrow> string \<Rightarrow> state \<Rightarrow> (cause + 'img) \<times> state" where
  "imaging_Open env path st =
     (case os_Open path st of
        (Inl err, st1) \<Rightarrow> (Inl err, st1)
      | (Inr file, st1) \<Rightarrow>
          (case file_ReadAll file st1 of
             (Inl err, st2) \<Rightarrow> (Inl err, st2)
           | (Inr content, st2) \<Rightarrow>
               (case imaging_Decode env content of
                  None \<Rightarrow> (Inl DecodeError, st2)
                | Some img \<Rightarrow> (Inr img, st2))))"

text \<open>The quality handed to \<^verbatim>\<open>jpeg.Encode\<close>.\<close>

definition adjustedQualityOf :: "int \<Rightarrow> int" where
  "adjustedQualityOf jpegQuality =
     (if jpegQuality > 90 then jpegQuality - 1 else jpegQuality + 1)"

text \<open>
  The \<^verbatim>\<open>switch ext\<close> of \<^verbatim>\<open>processFile\<close>. The JPEG and PNG encoders write through
  the handle \<^verbatim>\<open>os.Create\<close> returned; \<^verbatim>\<open>imaging.Save\<close> creates the file at the path
  again, which is still empty at that point, and writes there.
\<close>

definition saveImage ::
  "'img env \<Rightarrow> string \<Rightarrow> int \<Rightarrow> CompressionLevel \<Rightarrow> 'img \<Rightarrow> string \<Rightarrow> state
   \<Rightarrow> cause option \<times> state" where
  "saveImage env ext jpegQuality compressionLevel processed path st =
     (if ext = ''.jpg'' \<or> ext = ''.jpeg'' then
        (let adjustedQuality = adjustedQualityOf jpegQuality in
         case jpeg_Encode env processed adjustedQuality of (out, saveErr) \<Rightarrow>
           (saveErr,
            (let st1 = file_Write path out st in
             if verbose env
             then st1\<lparr>stdout := stdout st1 @ [JpegQualityAdjustment jpegQuality adjustedQuality]\<rparr>
             else st1)))
      else if ext = ''.png'' then
        (case png_Encode env compressionLevel processed of (out, saveErr) \<Rightarrow>
           (saveErr, file_Write path out st))
      else
        (case imaging_Save env processed path of (out, saveErr) \<Rightarrow>
           (saveErr, file_Write path out st)))"

text \<open>The report printed at the end of \<^verbatim>\<open>processFile\<close>.\<close>

definition report :: "'img env \<Rightarrow> string \<Rightarrow> string \<Rightarrow> string \<Rightarrow> state \<Rightarrow> state" where
  "report env path originalChecksum newChecksum st =
     (if verbose env then
        st\<lparr>stdout := stdout st @
             [ProcessedVerbose path, OriginalChecksum originalChecksum,
              NewChecksum newChecksum, ChecksumChanged (originalChecksum \<noteq> newChecksum)]\<rparr>
      else
        st\<lparr>stdout := stdout st @ [ProcessedLine path (originalChecksum \<noteq> newChecksum)]\<rparr>)"

text \<open>The estimates taken before decoding: the defaults, replaced for a JPEG or a PNG
  extension by what the estimator returns.\<close>

definition estimate ::
  "'img env \<Rightarrow> string \<Rightarrow> string \<Rightarrow> state \<Rightarrow> (int \<times> CompressionLevel) \<times> state" where
  "estimate env ext path st =
     (if ext = ''.jpg'' \<or> ext = ''.jpeg'' then
        (case estimateJpegQuality env path st of
           (jpegQuality, st1) \<Rightarrow> ((jpegQuality, DefaultCompression), st1))
      else if ext = ''.png'' then
        (case estimatePngCompressionLevel env path st of
           (compressionLevel, st1) \<Rightarrow> ((75, compressionLevel), st1))
      else ((75, DefaultCompression), st))"

definition processFile :: "'img env \<Rightarrow> string \<Rightarrow> state \<Rightarrow> error option \<times> state" where
  "processFile env path st =
     (let ext = strings_ToLower env (filepath_Ext path) in
      if \<not> supported ext then (Some (UnsupportedFileExtension ext), st)
      else
        (case calculateFileChecksum env path st of
           (Inl err, st1) \<Rightarrow> (Some (FailedToCalculateOriginalChecksum err), st1)
         | (Inr originalChecksum, st1) \<Rightarrow>
             (case estimate env ext path st1 of
                ((jpegQuality, compressionLevel), st2) \<Rightarrow>
                  (case imaging_Open env path st2 of
                     (Inl err, st3) \<Rightarrow> (Some (FailedToDecodeImage err), st3)
                   | (Inr src, st3) \<Rightarrow>
                       (let processed = imaging_AdjustBrightness env src 0.1 in
                        case os_Create path st3 of
                          (Some err, st4) \<Rightarrow> (Some (FailedToCreateOutputFile err), st4)
                        | (None, st4) \<Rightarrow>
                            (case saveImage env ext jpegQuality compressionLevel
                                    processed path st4 of
                               (Some saveErr, st5) \<Rightarrow> (Some (FailedToSaveImage saveErr), st5)
                             | (None, st5) \<Rightarrow>
                                 (case calculateFileChecksum env path st5 of
                                    (Inl err, st6) \<Rightarrow>
                                      (Some (FailedToCalculateNewChecksum err), st6)
                                  | (Inr newChecksum, st6) \<Rightarrow>
                                      (None,
                                       report env path originalChecksum newChecksum
                                         st6))))))))"

section \<open>Path dispatcher\<close>

text \<open>
  \<^verbatim>\<open>processDirectory\<close> and the body of its \<^verbatim>\<open>for ... range entries\<close> loop. The
  recursion ends because a sub-directory is entered only below the maximum depth.
\<close>

function processDirectory ::
    "'img env \<Rightarrow> string \<Rightarrow> int \<Rightarrow> int \<Rightarrow> state \<Rightarrow> error option \<times> state"
  and processEntries ::
    "'img env \<Rightarrow> string \<Rightarrow> int \<Rightarrow> int \<Rightarrow> DirEntry list \<Rightarrow> state \<Rightarrow> state"
where
  "processDirectory env path currentDepth maxDepth st =
     (if currentDepth > maxDepth then (None, st)
      else
        (case os_ReadDir path st of
           (Inl err, st1) \<Rightarrow> (Some (FailedToReadDirectory err), st1)
         | (Inr entries, st1) \<Rightarrow>
             (None, processEntries env path currentDepth maxDepth entries st1)))"
| "processEntries env path currentDepth maxDepth [] st = st"
| "processEntries env path currentDepth maxDepth (entry # later) st =
     (let entryPath = filepath_Join env path (Name entry) in
      if IsDir entry \<and> currentDepth < maxDepth then
        (case processDirectory env entryPath (currentDepth + 1) maxDepth st of
           (Some err, st1) \<Rightarrow>
             processEntries env path currentDepth maxDepth later
               (st1\<lparr>stderr := stderr st1 @ [ErrorProcessingDirectory entryPath err]\<rparr>)
         | (None, st1) \<Rightarrow> processEntries env path currentDepth maxDepth later st1)
      else if \<not> IsDir entry then
        (let ext = strings_ToLower env (filepath_Ext (Name entry)) in
         if supported ext then
           (case processFile env entryPath st of
              (Some err, st1) \<Rightarrow>
                processEntries env path currentDepth maxDepth later
                  (st1\<lparr>stderr := stderr st1 @ [ErrorProcessingFile entryPath err]\<rparr>)
            | (None, st1) \<Rightarrow> processEntries env path currentDepth maxDepth later st1)
         else processEntries env path currentDepth maxDepth later st)
      else processEntries env path currentDepth maxDepth later st)"
  by pat_completeness auto
termination
  by (relation "inv_image (less_than <*lex*> less_than)
        (\<lambda>x. case x of
           Inl (env, path, currentDepth, maxDepth, st) \<Rightarrow>
             (2 * nat (maxDepth - currentDepth) + 1, 0)
         | Inr (env, path, currentDepth, maxDepth, entries, st) \<Rightarrow>
             (2 * nat (maxDepth - currentDepth), length entries))")
     auto

section \<open>The step tables of the specification\<close>

text \<open>
  The specification describes both estimators as ordered tables of (threshold, value)
  pairs, evaluated by first match in ascending order, with a value for the case that no
  threshold matches. \<open>step_lookup\<close> is that evaluation; \<open>below t\<close> says whether the
  measured quantity lies below the threshold \<open>t\<close>.
\<close>

fun step_lookup :: "('k \<times> 'v) list \<Rightarrow> ('k \<Rightarrow> bool) \<Rightarrow> 'v \<Rightarrow> 'v" where
  "step_lookup [] below d = d"
| "step_lookup ((t, v) # higher) below d =
     (if below t then v else step_lookup higher below d)"

text \<open>Bytes per pixel to quality: below 0.5, 0.75, 1.0 and 1.5.\<close>

definition jpegQualityTable :: "(real \<times> int) list" where
  "jpegQualityTable = [(0.5, 60), (0.75, 70), (1.0, 80), (1.5, 90)]"

text \<open>File size to compression level: below 10KB, 100KB and 1MB.\<close>

definition pngLevelTable :: "(int \<times> CompressionLevel) list" where
  "pngLevelTable =
     [(10 * 1024, NoCompression), (100 * 1024, BestSpeed), (1024 * 1024, DefaultCompression)]"

section \<open>A concrete environment\<close>

text \<open>
  A small instance of \<open>env\<close> on which the model can be run. A toy image file is a tag
  byte (74 for JPEG, 80 for PNG, 71 for GIF), a width byte, a height byte and one byte
  per pixel; the encoders write the quality or the compression level they were given
  after the header and refuse an image with no pixels.
\<close>

type_synonym toy_image = "8 word \<times> 8 word \<times> bytes"

definition toy_ToLower :: "string \<Rightarrow> string" where
  "toy_ToLower s =
     map (\<lambda>c. case map_of (zip ''ABCDEFGHIJKLMNOPQRSTUVWXYZ'' ''abcdefghijklmnopqrstuvwxyz'') c of
                 Some l \<Rightarrow> l | None \<Rightarrow> c) s"

definition toy_Decode :: "bytes \<Rightarrow> (toy_image \<times> string) option" where
  "toy_Decode content =
     (case content of
        tag # w # h # pixels \<Rightarrow>
          if tag = 74 then Some ((w, h, pixels), ''jpeg'')
          else if tag = 80 then Some ((w, h, pixels), ''png'')
          else if tag = 71 then Some ((w, h, pixels), ''gif'')
          else None
      | _ \<Rightarrow> None)"

definition toy_level_code :: "CompressionLevel \<Rightarrow> 8 word" where
  "toy_level_code l =
     (case l of DefaultCompression \<Rightarrow> 0 | NoCompression \<Rightarrow> 1 | BestSpeed \<Rightarrow> 2
              | BestCompression \<Rightarrow> 3)"

definition toy_env :: "bool \<Rightarrow> toy_image env" where
  "toy_env v =
     \<lparr> verbose = v,
       strings_ToLower = toy_ToLower,
       filepath_Join = (\<lambda>dir name. dir @ ''/'' @ name),
       md5_Sum = (\<lambda>content.
          [0, 0, 0, 0, 0, 0, 0, 0, 0, 0, 0, 0, 0, 0, 0, foldr (+) content 0]),
       image_Decode = toy_Decode,
       image_Dx = (\<lambda>(w, h, pixels). ucast w),
       image_Dy = (\<lambda>(w, h, pixels). ucast h),
       float64_round = (\<lambda>x. x),
       dir_Size = 4096,
       imaging_Decode = (\<lambda>content. map_option fst (toy_Decode content)),
       imaging_AdjustBrightness =
         (\<lambda>(w, h, pixels) percentage. (w, h, map (\<lambda>p. p + 1) pixels)),
       jpeg_Encode = (\<lambda>(w, h, pixels) quality.
          if w = 0 \<or> h = 0 then ([], Some EncodeError)
          else (74 # w # h # word_of_int quality # pixels, None)),
       png_Encode = (\<lambda>level (w, h, pixels).
          if w = 0 \<or> h = 0 then ([], Some EncodeError)
          else (80 # w # h # toy_level_code level # pixels, None)),
       imaging_Save = (\<lambda>(w, h, pixels) path.
          if toy_ToLower (filepath_Ext path) = ''.gif'' then (71 # w # h # pixels, None)
          else ([], Some EncodeError)) \<rparr>"

text \<open>A file system holding one regular file, with no injected fault and empty streams.\<close>

definition toy_state :: "string \<Rightarrow> bytes \<Rightarrow> state" where
  "toy_state path content =
     \<lparr> fs = [path \<mapsto> File content], faults = [], stdout = [], stderr = [] \<rparr>"

section \<open>Auxiliary notions\<close>

text \<open>Two states that differ at most in the injected faults already consumed: the
  relation between the states before and after a call that only reads.\<close>

definition only_faults :: "state \<Rightarrow> state \<Rightarrow> bool" where
  "only_faults st st' =
     (fs st' = fs st \<and> stdout st' = stdout st \<and> stderr st' = stderr st \<and>
      (faults st = [] \<longrightarrow> st' = st))"

text \<open>
  What a run shows of the files it worked on: the final report of \<open>processFile\<close> on
  standard output names the path, and so does the error line the walk prints when
  \<open>processFile\<close> fails. \<open>attempted st st'\<close> lists the paths so named in the lines that
  \<open>st'\<close> has beyond \<open>st\<close>.
\<close>

fun out_path :: "out_line \<Rightarrow> string option" where
  "out_path (ProcessedVerbose p) = Some p"
| "out_path (ProcessedLine p changed) = Some p"
| "out_path (JpegQualityAdjustment a b) = None"
| "out_path (OriginalChecksum c) = None"
| "out_path (NewChecksum c) = None"
| "out_path (ChecksumChanged changed) = None"

fun err_file_path :: "err_line \<Rightarrow> string option" where
  "err_file_path (ErrorProcessingFile p e) = Some p"
| "err_file_path (ErrorProcessingDirectory p e) = None"

fun err_dir_path :: "err_line \<Rightarrow> string option" where
  "err_dir_path (ErrorProcessingDirectory p e) = Some p"
| "err_dir_path (ErrorProcessingFile p e) = None"

definition new_stdout :: "state \<Rightarrow> state \<Rightarrow> out_line list" where
  "new_stdout st st' = drop (length (stdout st)) (stdout st')"

definition new_stderr :: "state \<Rightarrow> state \<Rightarrow> err_line list" where
  "new_stderr st st' = drop (length (stderr st)) (stderr st')"

definition attempted :: "state \<Rightarrow> state \<Rightarrow> string list" where
  "attempted st st' =
     List.map_filter out_path (new_stdout st st') @
     List.map_filter err_file_path (new_stderr st st')"

text \<open>
  The directory tree as the specification speaks of it: the directories at level \<open>k\<close>
  below a starting directory (level 0 is the directory itself, level \<open>k + 1\<close> the
  sub-directory entries of the directories at level \<open>k\<close>), the directories at levels 0
  to \<open>n\<close>, and the entries of those directories that are not directories and have a
  supported extension.
\<close>

definition listing :: "(string \<Rightarrow> node option) \<Rightarrow> string \<Rightarrow> DirEntry list" where
  "listing f d = (case f d of Some (Dir es) \<Rightarrow> es | _ \<Rightarrow> [])"

definition subdirs :: "'img env \<Rightarrow> (string \<Rightarrow> node option) \<Rightarrow> string \<Rightarrow> string list" where
  "subdirs env f d = map (\<lambda>e. filepath_Join env d (Name e)) (filter IsDir (listing f d))"

fun dirs_at :: "'img env \<Rightarrow> (string \<Rightarrow> node option) \<Rightarrow> string \<Rightarrow> nat \<Rightarrow> string list" where
  "dirs_at env f start 0 = [start]"
| "dirs_at env f start (Suc k) = concat (map (subdirs env f) (dirs_at env f start k))"

definition dirs_upto :: "'img env \<Rightarrow> (string \<Rightarrow> node option) \<Rightarrow> string \<Rightarrow> nat \<Rightarrow> string list" where
  "dirs_upto env f start n = concat (map (dirs_at env f start) [0..<Suc n])"

definition image_files :: "'img env \<Rightarrow> (string \<Rightarrow> node option) \<Rightarrow> string \<Rightarrow> string list" where
  "image_files env f d =
     map (\<lambda>e. filepath_Join env d (Name e))
       (filter (\<lambda>e. \<not> IsDir e \<and> supported (strings_ToLower env (filepath_Ext (Name e))))
          (listing f d))"

definition files_upto :: "'img env \<Rightarrow> (string \<Rightarrow> node option) \<Rightarrow> string \<Rightarrow> nat \<Rightarrow> string list" where
  "files_upto env f start n = concat (map (image_files env f) (dirs_upto env f start n))"

text \<open>
  \<open>dirs_kept\<close>: the same paths are directories, with the same listings.
  \<open>touches_only A D st st'\<close>: from \<open>st\<close> to \<open>st'\<close> the streams only grew, every path
  named in a new report or file error is in \<open>A\<close>, every path named in a new directory
  error is in \<open>D\<close>, no path outside \<open>A\<close> changed in the file system, the directories
  are kept, and a run without injected faults stays without.
\<close>

definition dirs_kept :: "state \<Rightarrow> state \<Rightarrow> bool" where
  "dirs_kept st st' = (\<forall>q es. (fs st' q = Some (Dir es)) = (fs st q = Some (Dir es)))"

definition touches_only :: "string set \<Rightarrow> string set \<Rightarrow> state \<Rightarrow> state \<Rightarrow> bool" where
  "touches_only A D st st' =
     ((\<exists>outs. stdout st' = stdout st @ outs \<and>
          (\<forall>l \<in> set outs. \<forall>p. out_path l = Some p \<longrightarrow> p \<in> A)) \<and>
      (\<exists>errs. stderr st' = stderr st @ errs \<and>
          (\<forall>l \<in> set errs. (\<forall>p. err_file_path l = Some p \<longrightarrow> p \<in> A) \<and>
                           (\<forall>p. err_dir_path l = Some p \<longrightarrow> p \<in> D))) \<and>
      (\<forall>q. q \<notin> A \<longrightarrow> fs st' q = fs st q) \<and>
      dirs_kept st st' \<and>
      (faults st = [] \<longrightarrow> faults st' = []))"

text \<open>
  The two calls of the loop body, each with the error line the loop prints when the call
  returns an error (\<^verbatim>\<open>main.go\<close>, lines 283 to 286 and 276 to 279).
\<close>

definition file_step :: "'img env \<Rightarrow> string \<Rightarrow> state \<Rightarrow> state" where
  "file_step env entryPath st =
     (case processFile env entryPath st of
        (Some err, st1) \<Rightarrow> st1\<lparr>stderr := stderr st1 @ [ErrorProcessingFile entryPath err]\<rparr>
      | (None, st1) \<Rightarrow> st1)"

definition dir_step :: "'img env \<Rightarrow> string \<Rightarrow> int \<Rightarrow> int \<Rightarrow> state \<Rightarrow> state" where
  "dir_step env entryPath currentDepth maxDepth st =
     (case processDirectory env entryPath (currentDepth + 1) maxDepth st of
        (Some err, st1) \<Rightarrow>
          st1\<lparr>stderr := stderr st1 @ [ErrorProcessingDirectory entryPath err]\<rparr>
      | (None, st1) \<Rightarrow> st1)"

text \<open>
  \<open>walk_steps env A D st st'\<close>: the state \<open>st'\<close> comes from \<open>st\<close> by calls of
  \<open>processFile\<close> (with its error line) on paths of \<open>A\<close> and by reading directories of
  \<open>D\<close> (with the error line of a sub-directory that cannot be read), in some order, and by
  nothing else. It speaks of the calls made, not of what a path holds afterwards.
\<close>

inductive walk_steps :: "'img env \<Rightarrow> string set \<Rightarrow> string set \<Rightarrow> state \<Rightarrow> state \<Rightarrow> bool"
  for env :: "'img env" and A :: "string set" and D :: "string set" and st :: state
where
  stay: "walk_steps env A D st st"
| image: "walk_steps env A D st s \<Longrightarrow> p \<in> A \<Longrightarrow> walk_steps env A D st (file_step env p s)"
| listed: "walk_steps env A D st s \<Longrightarrow> q \<in> D \<Longrightarrow> walk_steps env A D st (snd (os_ReadDir q s))"
| unreadable:
    "walk_steps env A D st s \<Longrightarrow> q \<in> D \<Longrightarrow> fst (os_ReadDir q s) = Inl cause \<Longrightarrow>
     walk_steps env A D st
       ((snd (os_ReadDir q s))
          \<lparr>stderr := stderr (snd (os_ReadDir q s))
             @ [ErrorProcessingDirectory q (FailedToReadDirectory cause)]\<rparr>)"

text \<open>A tree for the concrete environment: directory \<open>d\<close> holds \<open>a.png\<close>, \<open>notes.txt\<close>
  and the directory \<open>sub\<close>, which holds \<open>b.png\<close> and the directory \<open>deep\<close>, which holds
  \<open>c.png\<close>.\<close>

definition toy_tree :: state where
  "toy_tree =
     \<lparr> fs = [''d'' \<mapsto> Dir [\<lparr>Name = ''a.png'', IsDir = False\<rparr>,
                              \<lparr>Name = ''notes.txt'', IsDir = False\<rparr>,
                              \<lparr>Name = ''sub'', IsDir = True\<rparr>],
              ''d/a.png'' \<mapsto> File [80, 1, 1, 7],
              ''d/notes.txt'' \<mapsto> File [104, 105],
              ''d/sub'' \<mapsto> Dir [\<lparr>Name = ''b.png'', IsDir = False\<rparr>,
                                  \<lparr>Name = ''deep'', IsDir = True\<rparr>],
              ''d/sub/b.png'' \<mapsto> File [80, 1, 1, 8],
              ''d/sub/deep'' \<mapsto> Dir [\<lparr>Name = ''c.png'', IsDir = False\<rparr>],
              ''d/sub/deep/c.png'' \<mapsto> File [80, 1, 1, 9]],
       faults = [], stdout = [], stderr = [] \<rparr>"


section \<open>Properties of the estimators\<close>

lemma jpegQualityOf_table: "jpegQualityOf x = step_lookup jpegQualityTable (float64_less x) 95"
  by (simp add: jpegQualityOf_def jpegQualityTable_def)

lemma pngLevelOf_table: "pngLevelOf n = step_lookup pngLevelTable (\<lambda>t. n < t) BestCompression"
  by (simp add: pngLevelOf_def pngLevelTable_def)

lemma est_png_ok:
  "fs st path = Some (File bs) \<Longrightarrow> True \<notin> set (take 2 (faults st)) \<Longrightarrow>
   fst (estimatePngCompressionLevel env path st) = pngLevelOf (int (length bs))"
  by (auto simp: estimatePngCompressionLevel_def os_Open_def file_Stat_def next_fault_def
      split: list.splits)

lemma est_png_fail:
  "fs st path = None \<or> True \<in> set (take 2 (faults st)) \<Longrightarrow>
   fst (estimatePngCompressionLevel env path st) = DefaultCompression"
  by (auto simp: estimatePngCompressionLevel_def os_Open_def file_Stat_def next_fault_def
      split: list.splits option.splits node.splits)

lemma est_jpeg_ok:
  "fs st path = Some (File bs) \<Longrightarrow> True \<notin> set (take 3 (faults st)) \<Longrightarrow>
   image_Decode env bs = Some (img, ''jpeg'') \<Longrightarrow>
   fst (estimateJpegQuality env path st) =
     jpegQualityOf (float64_quot env (int (length bs)) (sint (image_Dx env img * image_Dy env img)))"
  by (auto simp: estimateJpegQuality_def os_Open_def file_Stat_def file_ReadAll_def next_fault_def
      split: list.splits)

lemma est_jpeg_fail:
  "\<not> (\<exists>bs img. fs st path = Some (File bs) \<and> True \<notin> set (take 3 (faults st)) \<and>
         image_Decode env bs = Some (img, ''jpeg'')) \<Longrightarrow>
   fst (estimateJpegQuality env path st) = 75"
  by (auto simp: estimateJpegQuality_def os_Open_def file_Stat_def file_ReadAll_def next_fault_def Let_def
      split: list.splits option.splits node.splits)

lemma jpegQualityOf_range: "jpegQualityOf x \<in> {60, 70, 80, 90, 95}"
  by (simp add: jpegQualityOf_def)

lemma est_jpeg_range: "fst (estimateJpegQuality env path st) \<in> {60, 70, 75, 80, 90, 95}"
  using jpegQualityOf_range
  by (auto simp: estimateJpegQuality_def Let_def split: prod.splits sum.splits option.splits)

section \<open>Independence from the JPEG encoder\<close>

text \<open>Replacing the JPEG encoder of the environment changes nothing before the file
  is saved.\<close>

lemma file_Stat_enc [simp]: "file_Stat (env\<lparr>jpeg_Encode := enc\<rparr>) = file_Stat env"
  by (intro ext) (simp add: file_Stat_def split: prod.splits node.splits)

lemma float64_quot_enc [simp]: "float64_quot (env\<lparr>jpeg_Encode := enc\<rparr>) = float64_quot env"
  by (intro ext) (simp add: float64_quot_def)

lemma checksum_enc [simp]:
  "calculateFileChecksum (env\<lparr>jpeg_Encode := enc\<rparr>) = calculateFileChecksum env"
  by (intro ext) (simp add: calculateFileChecksum_def split: prod.splits sum.splits)

lemma est_jpeg_enc [simp]:
  "estimateJpegQuality (env\<lparr>jpeg_Encode := enc\<rparr>) = estimateJpegQuality env"
  by (intro ext) (simp add: estimateJpegQuality_def split: prod.splits sum.splits option.splits)

lemma est_png_enc [simp]:
  "estimatePngCompressionLevel (env\<lparr>jpeg_Encode := enc\<rparr>) = estimatePngCompressionLevel env"
  by (intro ext) (simp add: estimatePngCompressionLevel_def split: prod.splits sum.splits)

lemma estimate_enc [simp]:
  "estimate (env\<lparr>jpeg_Encode := enc\<rparr>) = estimate env"
  by (intro ext) (simp add: estimate_def)

lemma imaging_Open_enc [simp]:
  "imaging_Open (env\<lparr>jpeg_Encode := enc\<rparr>) = imaging_Open env"
  by (intro ext) (simp add: imaging_Open_def split: prod.splits sum.splits option.splits)

lemma report_enc [simp]:
  "report (env\<lparr>jpeg_Encode := enc\<rparr>) = report env"
  by (intro ext) (simp add: report_def)

lemma saveImage_enc:
  "(ext = ''.jpg'' \<or> ext = ''.jpeg'' \<longrightarrow>
      enc img (adjustedQualityOf q) = jpeg_Encode env img (adjustedQualityOf q)) \<Longrightarrow>
   saveImage (env\<lparr>jpeg_Encode := enc\<rparr>) ext q lvl img path st = saveImage env ext q lvl img path st"
  by (auto simp: saveImage_def Let_def)

lemma estimate_jpeg_quality:
  "ext = ''.jpg'' \<or> ext = ''.jpeg'' \<Longrightarrow>
   fst (fst (estimate env ext path st)) = fst (estimateJpegQuality env path st)"
  by (auto simp: estimate_def split: prod.splits)

text \<open>processFile with every intermediate result named by a projection.\<close>

lemma processFile_proj:
  "processFile env path st =
     (let ext = strings_ToLower env (filepath_Ext path);
          c = calculateFileChecksum env path st;
          e = estimate env ext path (snd c);
          opened = imaging_Open env path (snd e);
          created = os_Create path (snd opened);
          saved = saveImage env ext (fst (fst e)) (snd (fst e))
                    (imaging_AdjustBrightness env (projr (fst opened)) 0.1) path (snd created);
          n = calculateFileChecksum env path (snd saved)
      in if \<not> supported ext then (Some (UnsupportedFileExtension ext), st)
         else if isl (fst c) then (Some (FailedToCalculateOriginalChecksum (projl (fst c))), snd c)
         else if isl (fst opened) then (Some (FailedToDecodeImage (projl (fst opened))), snd opened)
         else if fst created \<noteq> None
           then (Some (FailedToCreateOutputFile (the (fst created))), snd created)
         else if fst saved \<noteq> None then (Some (FailedToSaveImage (the (fst saved))), snd saved)
         else if isl (fst n) then (Some (FailedToCalculateNewChecksum (projl (fst n))), snd n)
         else (None, report env path (projr (fst c)) (projr (fst n)) (snd n)))"
  by (simp add: processFile_def Let_def split: prod.splits sum.splits option.splits)

lemma processFile_enc:
  assumes "\<And>img. enc img
       (adjustedQualityOf (fst (estimateJpegQuality env path (snd (calculateFileChecksum env path st)))))
     = jpeg_Encode env img
       (adjustedQualityOf (fst (estimateJpegQuality env path (snd (calculateFileChecksum env path st)))))"
  shows "processFile (env\<lparr>jpeg_Encode := enc\<rparr>) path st = processFile env path st"
proof -
  let ?ext = "strings_ToLower env (filepath_Ext path)"
  let ?e = "estimate env ?ext path (snd (calculateFileChecksum env path st))"
  have "saveImage (env\<lparr>jpeg_Encode := enc\<rparr>) ?ext (fst (fst ?e)) lvl img path s
      = saveImage env ?ext (fst (fst ?e)) lvl img path s" for lvl img s
    by (rule saveImage_enc) (simp add: estimate_jpeg_quality assms)
  then show ?thesis
    by (simp add: processFile_proj Let_def)
qed

section \<open>Format estimator: the claims\<close>

text \<open>
  Claim C4. The JPEG quality estimator divides the file's byte size by the decoded pixel
  count and maps the bytes-per-pixel ratio through the ascending step table (below 0.5
  gives 60, below 0.75 gives 70, below 1.0 gives 80, below 1.5 gives 90, otherwise 95), so
  the estimate is one of 60, 70, 80, 90, 95; when the file cannot be opened, stat'ed or
  read, cannot be decoded, or decodes to a format other than JPEG, the estimate is the
  default 75.
\<close>

theorem estimateJpegQuality_step_table:
  "(fs st path = Some (File content) \<and> True \<notin> set (take 3 (faults st)) \<and>
    image_Decode env content = Some (img, ''jpeg'') \<longrightarrow>
      fst (estimateJpegQuality env path st) =
        step_lookup jpegQualityTable
          (float64_less (float64_quot env (int (length content))
                           (sint (image_Dx env img * image_Dy env img)))) 95
      \<and> fst (estimateJpegQuality env path st) \<in> {60, 70, 80, 90, 95})
   \<and> (\<not> (\<exists>bs i. fs st path = Some (File bs) \<and> True \<notin> set (take 3 (faults st)) \<and>
              image_Decode env bs = Some (i, ''jpeg'')) \<longrightarrow>
        fst (estimateJpegQuality env path st) = 75)"
proof (intro conjI impI)
  assume ok: "fs st path = Some (File content) \<and> True \<notin> set (take 3 (faults st)) \<and>
    image_Decode env content = Some (img, ''jpeg'')"
  then have eq: "fst (estimateJpegQuality env path st) =
     jpegQualityOf (float64_quot env (int (length content))
        (sint (image_Dx env img * image_Dy env img)))"
    by (simp add: est_jpeg_ok)
  then show "fst (estimateJpegQuality env path st) =
        step_lookup jpegQualityTable
          (float64_less (float64_quot env (int (length content))
                           (sint (image_Dx env img * image_Dy env img)))) 95"
    by (simp only: jpegQualityOf_table)
  from eq show "fst (estimateJpegQuality env path st) \<in> {60, 70, 80, 90, 95}"
    using jpegQualityOf_range by simp
next
  assume "\<not> (\<exists>bs i. fs st path = Some (File bs) \<and> True \<notin> set (take 3 (faults st)) \<and>
              image_Decode env bs = Some (i, ''jpeg''))"
  then show "fst (estimateJpegQuality env path st) = 75"
    by (rule est_jpeg_fail)
qed

theorem estimateJpegQuality_step_table_witness:
  "fs (toy_state ''a.jpg'' [74, 2, 4, 1, 2, 3, 4]) ''a.jpg'' = Some (File [74, 2, 4, 1, 2, 3, 4])
   \<and> True \<notin> set (take 3 (faults (toy_state ''a.jpg'' [74, 2, 4, 1, 2, 3, 4])))
   \<and> image_Decode (toy_env False) [74, 2, 4, 1, 2, 3, 4] = Some ((2, 4, [1, 2, 3, 4]), ''jpeg'')
   \<and> fst (estimateJpegQuality (toy_env False) ''a.jpg'' (toy_state ''a.jpg'' [74, 2, 4, 1, 2, 3, 4])) = 80
   \<and> fs (toy_state ''a.jpg'' [74, 2, 4, 1, 2, 3, 4]) ''b.jpg'' = None
   \<and> fst (estimateJpegQuality (toy_env False) ''b.jpg'' (toy_state ''a.jpg'' [74, 2, 4, 1, 2, 3, 4])) = 75"
proof -
  let ?st = "toy_state ''a.jpg'' [74, 2, 4, 1, 2, 3, 4]"
  have h1: "fs ?st ''a.jpg'' = Some (File [74, 2, 4, 1, 2, 3, 4])"
    and h2: "True \<notin> set (take 3 (faults ?st))"
    and h3: "image_Decode (toy_env False) [74, 2, 4, 1, 2, 3, 4]
             = Some ((2, 4, [1, 2, 3, 4]), ''jpeg'')"
    and h4: "fs ?st ''b.jpg'' = None"
    by (simp_all add: toy_state_def toy_env_def toy_Decode_def)
  from estimateJpegQuality_step_table [of ?st "''a.jpg''" "[74, 2, 4, 1, 2, 3, 4]"
      "toy_env False" "(2, 4, [1, 2, 3, 4])"] h1 h2 h3
  have "fst (estimateJpegQuality (toy_env False) ''a.jpg'' ?st) =
        step_lookup jpegQualityTable
          (float64_less (float64_quot (toy_env False) (int (length [74, 2, 4, 1, 2, 3, 4::8 word]))
             (sint (image_Dx (toy_env False) (2, 4, [1, 2, 3, 4])
                  * image_Dy (toy_env False) (2, 4, [1, 2, 3, 4]))))) 95"
    by blast
  then have c1: "fst (estimateJpegQuality (toy_env False) ''a.jpg'' ?st) = 80"
    by (simp add: jpegQualityTable_def float64_quot_def toy_env_def)
  from estimateJpegQuality_step_table [of ?st "''b.jpg''" "[]" "toy_env False"] h4
  have c2: "fst (estimateJpegQuality (toy_env False) ''b.jpg'' ?st) = 75"
    by simp
  from h1 h2 h3 h4 c1 c2 show ?thesis by blast
qed

text \<open>
  Claim C5. The PNG compression-level estimator maps the file size through the ascending
  step table: below 10KB no compression, below 100KB best speed, below 1MB default
  compression, otherwise best compression; when the file cannot be opened or stat'ed the
  estimate is default compression.
\<close>

theorem estimatePngCompressionLevel_step_table:
  "(fs st path = Some (File content) \<and> True \<notin> set (take 2 (faults st)) \<longrightarrow>
      fst (estimatePngCompressionLevel env path st) =
        step_lookup pngLevelTable (\<lambda>threshold. int (length content) < threshold) BestCompression)
   \<and> (fs st path = None \<or> True \<in> set (take 2 (faults st)) \<longrightarrow>
        fst (estimatePngCompressionLevel env path st) = DefaultCompression)"
proof (intro conjI impI)
  assume "fs st path = Some (File content) \<and> True \<notin> set (take 2 (faults st))"
  then have "fst (estimatePngCompressionLevel env path st) = pngLevelOf (int (length content))"
    by (simp add: est_png_ok)
  then show "fst (estimatePngCompressionLevel env path st) =
        step_lookup pngLevelTable (\<lambda>threshold. int (length content) < threshold) BestCompression"
    by (simp only: pngLevelOf_table)
next
  assume "fs st path = None \<or> True \<in> set (take 2 (faults st))"
  then show "fst (estimatePngCompressionLevel env path st) = DefaultCompression"
    by (rule est_png_fail)
qed

theorem estimatePngCompressionLevel_step_table_witness:
  "fs (toy_state ''a.png'' (replicate 20000 0)) ''a.png'' = Some (File (replicate 20000 0))
   \<and> True \<notin> set (take 2 (faults (toy_state ''a.png'' (replicate 20000 0))))
   \<and> fst (estimatePngCompressionLevel (toy_env False) ''a.png''
        (toy_state ''a.png'' (replicate 20000 0))) = BestSpeed
   \<and> fs (toy_state ''a.png'' (replicate 20000 0)) ''b.png'' = None
   \<and> fst (estimatePngCompressionLevel (toy_env False) ''b.png''
        (toy_state ''a.png'' (replicate 20000 0))) = DefaultCompression"
proof -
  let ?st = "toy_state ''a.png'' (replicate 20000 0)"
  have h1: "fs ?st ''a.png'' = Some (File (replicate 20000 0))"
    and h2: "True \<notin> set (take 2 (faults ?st))"
    and h3: "fs ?st ''b.png'' = None"
    by (simp_all add: toy_state_def)
  from estimatePngCompressionLevel_step_table [of ?st "''a.png''" "replicate 20000 0" "toy_env False"]
    h1 h2
  have "fst (estimatePngCompressionLevel (toy_env False) ''a.png'' ?st) =
        step_lookup pngLevelTable (\<lambda>threshold. int (length (replicate 20000 (0::8 word))) < threshold)
          BestCompression"
    by blast
  then have c1: "fst (estimatePngCompressionLevel (toy_env False) ''a.png'' ?st) = BestSpeed"
    by (simp add: pngLevelTable_def)
  from estimatePngCompressionLevel_step_table [of ?st "''b.png''" "[]" "toy_env False"] h3
  have c2: "fst (estimatePngCompressionLevel (toy_env False) ''b.png'' ?st) = DefaultCompression"
    by simp
  from h1 h2 h3 c1 c2 show ?thesis by blast
qed

text \<open>
  Claim C9. The quality handed to the JPEG encoder is one of 61, 71, 76, 81, 91, 94 and so
  lies between 1 and 100: the adjusted estimate is in that set, and processing a file
  gives the same result with any encoder that agrees with the real one on those six
  qualities.
\<close>

theorem jpeg_adjusted_quality_in_range:
  "adjustedQualityOf (fst (estimateJpegQuality env path st)) \<in> {61, 71, 76, 81, 91, 94}
   \<and> 1 \<le> adjustedQualityOf (fst (estimateJpegQuality env path st))
   \<and> adjustedQualityOf (fst (estimateJpegQuality env path st)) \<le> 100
   \<and> ((\<forall>img quality. quality \<in> {61, 71, 76, 81, 91, 94} \<longrightarrow>
           enc img quality = jpeg_Encode env img quality) \<longrightarrow>
        processFile (env\<lparr>jpeg_Encode := enc\<rparr>) path st = processFile env path st)"
proof -
  have range: "adjustedQualityOf (fst (estimateJpegQuality env path s)) \<in> {61, 71, 76, 81, 91, 94}"
    for s
    using est_jpeg_range [of env path s] by (auto simp: adjustedQualityOf_def)
  have "processFile (env\<lparr>jpeg_Encode := enc\<rparr>) path st = processFile env path st"
    if "\<forall>img quality. quality \<in> {61, 71, 76, 81, 91, 94} \<longrightarrow>
           enc img quality = jpeg_Encode env img quality"
    by (rule processFile_enc) (use that range in blast)
  with range [of st] show ?thesis by auto
qed


theorem jpeg_adjusted_quality_in_range_witness:
  "adjustedQualityOf (fst (estimateJpegQuality (toy_env False) ''a.jpg''
        (toy_state ''a.jpg'' [74, 2, 2, 9, 9, 9, 9]))) \<in> {61, 71, 76, 81, 91, 94}
   \<and> processFile ((toy_env False)\<lparr>jpeg_Encode := \<lambda>img quality.
          if quality \<in> {61, 71, 76, 81, 91, 94} then jpeg_Encode (toy_env False) img quality
          else ([], Some EncodeError)\<rparr>) ''a.jpg'' (toy_state ''a.jpg'' [74, 2, 2, 9, 9, 9, 9])
     = processFile (toy_env False) ''a.jpg'' (toy_state ''a.jpg'' [74, 2, 2, 9, 9, 9, 9])"
  using jpeg_adjusted_quality_in_range [of "toy_env False" "''a.jpg''"
      "toy_state ''a.jpg'' [74, 2, 2, 9, 9, 9, 9]"
      "\<lambda>img quality. if quality \<in> {61, 71, 76, 81, 91, 94}
         then jpeg_Encode (toy_env False) img quality else ([], Some EncodeError)"]
  by simp

section \<open>What each step does to the state\<close>

lemma only_faults_refl [simp]: "only_faults st st"
  by (simp add: only_faults_def)

lemma only_faults_trans: "only_faults a b \<Longrightarrow> only_faults b c \<Longrightarrow> only_faults a c"
  by (auto simp: only_faults_def)

lemma only_faults_next [simp]: "only_faults st (snd (next_fault st))"
  by (simp add: only_faults_def next_fault_def split: list.splits)

lemma os_Open_state [simp]: "snd (os_Open path st) = snd (next_fault st)"
  by (simp add: os_Open_def split: prod.splits option.splits)

lemma file_Stat_state [simp]: "snd (file_Stat env n st) = snd (next_fault st)"
  by (simp add: file_Stat_def split: prod.splits node.splits)

lemma file_ReadAll_state [simp]: "snd (file_ReadAll n st) = snd (next_fault st)"
  by (simp add: file_ReadAll_def split: prod.splits node.splits)

lemma os_ReadDir_state [simp]: "snd (os_ReadDir path st) = snd (next_fault st)"
  by (simp add: os_ReadDir_def split: prod.splits node.splits option.splits)

lemma calculateFileChecksum_only_faults [simp]:
  "only_faults st (snd (calculateFileChecksum env path st))"
  by (auto simp: only_faults_def calculateFileChecksum_def os_Open_def file_ReadAll_def
      next_fault_def split: list.splits option.splits node.splits)

lemma estimateJpegQuality_only_faults [simp]:
  "only_faults st (snd (estimateJpegQuality env path st))"
  by (auto simp: only_faults_def estimateJpegQuality_def os_Open_def file_Stat_def
      file_ReadAll_def next_fault_def Let_def split: list.splits option.splits node.splits)

lemma estimatePngCompressionLevel_only_faults [simp]:
  "only_faults st (snd (estimatePngCompressionLevel env path st))"
  by (auto simp: only_faults_def estimatePngCompressionLevel_def os_Open_def file_Stat_def
      next_fault_def split: list.splits option.splits node.splits)

lemma estimate_only_faults [simp]: "only_faults st (snd (estimate env ext path st))"
  by (simp add: estimate_def split: prod.splits)
    (metis estimateJpegQuality_only_faults estimatePngCompressionLevel_only_faults snd_conv)

lemma imaging_Open_only_faults [simp]: "only_faults st (snd (imaging_Open env path st))"
  by (auto simp: only_faults_def imaging_Open_def os_Open_def file_ReadAll_def
      next_fault_def split: list.splits option.splits node.splits)

lemma os_Create_cases:
  "(fst (os_Create path st) = None \<and>
      fs (snd (os_Create path st)) = (fs st)(path \<mapsto> File []) \<and>
      (\<forall>es. fs st path \<noteq> Some (Dir es)) \<and>
      stdout (snd (os_Create path st)) = stdout st \<and>
      stderr (snd (os_Create path st)) = stderr st \<and>
      (faults st = [] \<longrightarrow> faults (snd (os_Create path st)) = [])) \<or>
   (fst (os_Create path st) = Some CreateError \<and> only_faults st (snd (os_Create path st)))"
  by (auto simp: only_faults_def os_Create_def next_fault_def
      split: list.splits option.splits node.splits)

lemma os_Create_quiet:
  "faults st = [] \<Longrightarrow>
   os_Create path st =
     (case fs st path of
        Some (Dir es) \<Rightarrow> (Some CreateError, st)
      | _ \<Rightarrow> (None, st\<lparr>fs := (fs st)(path \<mapsto> File [])\<rparr>))"
  by (simp add: os_Create_def next_fault_def)

lemma saveImage_cases:
  assumes "fs st path = Some (File old)"
  shows "\<exists>out. (out, fst (saveImage env ext q lvl img path st)) \<in>
            (if ext = ''.jpg'' \<or> ext = ''.jpeg'' then {jpeg_Encode env img (adjustedQualityOf q)}
             else if ext = ''.png'' then {png_Encode env lvl img}
             else {imaging_Save env img path}) \<and>
          fs (snd (saveImage env ext q lvl img path st)) = (fs st)(path \<mapsto> File (old @ out)) \<and>
          stdout (snd (saveImage env ext q lvl img path st)) =
            stdout st @ (if verbose env \<and> (ext = ''.jpg'' \<or> ext = ''.jpeg'')
                         then [JpegQualityAdjustment q (adjustedQualityOf q)] else []) \<and>
          stderr (snd (saveImage env ext q lvl img path st)) = stderr st \<and>
          faults (snd (saveImage env ext q lvl img path st)) = faults st"
  using assms
  by (auto simp: saveImage_def Let_def file_Write_def split: prod.splits)

lemma report_fields [simp]:
  "fs (report env path a b st) = fs st"
  "stderr (report env path a b st) = stderr st"
  "faults (report env path a b st) = faults st"
  "stdout (report env path a b st) =
     stdout st @ (if verbose env
        then [ProcessedVerbose path, OriginalChecksum a, NewChecksum b, ChecksumChanged (a \<noteq> b)]
        else [ProcessedLine path (a \<noteq> b)])"
  by (simp_all add: report_def)


lemma supported_iff:
  "supported ext \<longleftrightarrow> ext \<in> {''.jpg'', ''.jpeg'', ''.png'', ''.gif'', ''.webp''}"
  by (auto simp: supported_def supportedExtensions_def)

lemma processFile_unsupported:
  "\<not> supported (strings_ToLower env (filepath_Ext path)) \<Longrightarrow>
   processFile env path st =
     (Some (UnsupportedFileExtension (strings_ToLower env (filepath_Ext path))), st)"
  by (simp add: processFile_def)

text \<open>What processFile does once the output file has been created.\<close>

lemma processFile_after_create:
  assumes "supported (strings_ToLower env (filepath_Ext path))"
    and "calculateFileChecksum env path st = (Inr originalChecksum, st1)"
    and "estimate env (strings_ToLower env (filepath_Ext path)) path st1
           = ((jpegQuality, compressionLevel), st2)"
    and "imaging_Open env path st2 = (Inr src, st3)"
    and "os_Create path st3 = (None, st4)"
    and "saveImage env (strings_ToLower env (filepath_Ext path)) jpegQuality compressionLevel
           (imaging_AdjustBrightness env src 0.1) path st4 = (saveErr, st5)"
  shows "processFile env path st =
     (case saveErr of
        Some err \<Rightarrow> (Some (FailedToSaveImage err), st5)
      | None \<Rightarrow>
          (case calculateFileChecksum env path st5 of
             (Inl err, st6) \<Rightarrow> (Some (FailedToCalculateNewChecksum err), st6)
           | (Inr newChecksum, st6) \<Rightarrow>
               (None, report env path originalChecksum newChecksum st6)))"
  using assms by (simp add: processFile_def)

lemma processFile_fs_after_create:
  assumes "supported (strings_ToLower env (filepath_Ext path))"
    and "calculateFileChecksum env path st = (Inr originalChecksum, st1)"
    and "estimate env (strings_ToLower env (filepath_Ext path)) path st1
           = ((jpegQuality, compressionLevel), st2)"
    and "imaging_Open env path st2 = (Inr src, st3)"
    and "os_Create path st3 = (None, st4)"
    and "saveImage env (strings_ToLower env (filepath_Ext path)) jpegQuality compressionLevel
           (imaging_AdjustBrightness env src 0.1) path st4 = (saveErr, st5)"
  shows "fs (snd (processFile env path st)) = fs st5"
proof -
  have "only_faults st5 (snd (calculateFileChecksum env path st5))"
    by simp
  then have "fs (snd (calculateFileChecksum env path st5)) = fs st5"
    by (simp add: only_faults_def)
  then show ?thesis
    unfolding processFile_after_create [OF assms]
    by (auto split: option.splits prod.splits sum.splits)
qed

section \<open>Checksums\<close>

lemma length_hex_EncodeToString: "length (hex_EncodeToString src) = 2 * length src"
  by (induction src) simp_all

lemma high_nibble_bound: "unat (drop_bit 4 (v :: 8 word)) < 16"
proof -
  have "unat v < 256" using unsigned_less [of v, where 'a = nat] by simp
  then have "unat v div 16 < 16" by simp
  moreover have "unat (drop_bit 4 v) = drop_bit 4 (unat v)" by (rule unat_drop_bit_eq)
  moreover have "drop_bit 4 (unat v) = unat v div 16" by (simp add: drop_bit_eq_div)
  ultimately show ?thesis by simp
qed

lemma low_nibble_bound: "unat ((v :: 8 word) AND 0x0f) < 16"
proof -
  have "unat (v AND 15) \<le> unat (15 :: 8 word)"
    by (rule word_and_le1 [THEN word_le_nat_alt [THEN iffD1]])
  then show ?thesis by simp
qed

lemma hextable_nth: "n < 16 \<Longrightarrow> hextable ! n \<in> set hextable"
  by (rule nth_mem) (simp add: hextable_def)

lemma set_hex_EncodeToString: "set (hex_EncodeToString src) \<subseteq> set hextable"
  by (induction src) (simp_all add: hextable_nth high_nibble_bound low_nibble_bound)

lemma calculateFileChecksum_Inr:
  "fst (calculateFileChecksum env path st) = Inr digest \<Longrightarrow>
   \<exists>content. fs st path = Some (File content) \<and>
     digest = hex_EncodeToString (md5_Sum env content)"
  by (auto simp: calculateFileChecksum_def os_Open_def file_ReadAll_def next_fault_def
      split: list.splits option.splits node.splits if_splits)

lemma calculateFileChecksum_ok:
  "fs st path = Some (File content) \<Longrightarrow> True \<notin> set (take 2 (faults st)) \<Longrightarrow>
   fst (calculateFileChecksum env path st) = Inr (hex_EncodeToString (md5_Sum env content))"
  by (auto simp: calculateFileChecksum_def os_Open_def file_ReadAll_def next_fault_def
      split: list.splits)

section \<open>Saving\<close>

lemma estimate_jpeg:
  "ext = ''.jpg'' \<or> ext = ''.jpeg'' \<Longrightarrow> estimateJpegQuality env path st = (q, st') \<Longrightarrow>
   estimate env ext path st = ((q, DefaultCompression), st')"
  by (auto simp: estimate_def)

lemma estimate_png:
  "estimatePngCompressionLevel env path st = (lvl, st') \<Longrightarrow>
   estimate env ''.png'' path st = ((75, lvl), st')"
  by (simp add: estimate_def)

lemma os_Create_None:
  "os_Create path st = (None, st') \<Longrightarrow> fs st' = (fs st)(path \<mapsto> File [])"
  using os_Create_cases [of path st] by auto

text \<open>Once the output file is created, the file holds what the encoder of the branch
  wrote, whether or not the encoder then reported an error.\<close>

lemma processFile_encodes:
  assumes "supported (strings_ToLower env (filepath_Ext path))"
    and "calculateFileChecksum env path st = (Inr originalChecksum, st1)"
    and "estimate env (strings_ToLower env (filepath_Ext path)) path st1
           = ((jpegQuality, compressionLevel), st2)"
    and "imaging_Open env path st2 = (Inr src, st3)"
    and "os_Create path st3 = (None, st4)"
  shows "\<exists>out saveErr.
      (out, saveErr) \<in>
        (if strings_ToLower env (filepath_Ext path) = ''.jpg'' \<or>
            strings_ToLower env (filepath_Ext path) = ''.jpeg''
         then {jpeg_Encode env (imaging_AdjustBrightness env src 0.1)
                 (adjustedQualityOf jpegQuality)}
         else if strings_ToLower env (filepath_Ext path) = ''.png''
         then {png_Encode env compressionLevel (imaging_AdjustBrightness env src 0.1)}
         else {imaging_Save env (imaging_AdjustBrightness env src 0.1) path}) \<and>
      fs (snd (processFile env path st)) = (fs st3)(path \<mapsto> File out) \<and>
      (\<forall>err. saveErr = Some err \<longrightarrow>
         processFile env path st =
           (Some (FailedToSaveImage err),
            snd (saveImage env (strings_ToLower env (filepath_Ext path)) jpegQuality
                   compressionLevel (imaging_AdjustBrightness env src 0.1) path st4)))"
proof -
  let ?ext = "strings_ToLower env (filepath_Ext path)"
  let ?img = "imaging_AdjustBrightness env src 0.1"
  let ?saved = "saveImage env ?ext jpegQuality compressionLevel ?img path st4"
  have created: "fs st4 = (fs st3)(path \<mapsto> File [])"
    by (rule os_Create_None [OF assms(5)])
  then have empty: "fs st4 path = Some (File [])"
    by simp
  from saveImage_cases [OF empty, of env ?ext jpegQuality compressionLevel ?img]
  obtain out where out:
    "(out, fst ?saved) \<in>
        (if ?ext = ''.jpg'' \<or> ?ext = ''.jpeg''
         then {jpeg_Encode env ?img (adjustedQualityOf jpegQuality)}
         else if ?ext = ''.png'' then {png_Encode env compressionLevel ?img}
         else {imaging_Save env ?img path})"
    "fs (snd ?saved) = (fs st4)(path \<mapsto> File ([] @ out))"
    by blast
  have saved: "?saved = (fst ?saved, snd ?saved)"
    by simp
  have "fs (snd (processFile env path st)) = fs (snd ?saved)"
    by (rule processFile_fs_after_create [OF assms saved])
  with out(2) created have fs: "fs (snd (processFile env path st)) = (fs st3)(path \<mapsto> File out)"
    by simp
  have "processFile env path st = (Some (FailedToSaveImage err), snd ?saved)"
    if "fst ?saved = Some err" for err
    using processFile_after_create [OF assms saved] that by simp
  with out(1) fs show ?thesis
    by blast
qed

lemma only_faults_chain3:
  assumes "calculateFileChecksum env path st = (r1, st1)"
    and "estimate env ext path st1 = (r2, st2)"
    and "imaging_Open env path st2 = (r3, st3)"
  shows "only_faults st st3"
proof -
  have "only_faults st st1"
    using calculateFileChecksum_only_faults [of st env path] assms(1) by simp
  moreover have "only_faults st1 st2"
    using estimate_only_faults [of st1 env ext path] assms(2) by simp
  moreover have "only_faults st2 st3"
    using imaging_Open_only_faults [of st2 env path] assms(3) by simp
  ultimately show ?thesis
    by (blast intro: only_faults_trans)
qed

lemma pngLevelOf_best: "pngLevelOf n = BestCompression \<longleftrightarrow> 1024 * 1024 \<le> n"
  by (simp add: pngLevelOf_def)

text \<open>Runs of the single steps in the concrete environment, with no injected fault.\<close>

lemma toy_checksum:
  "calculateFileChecksum (toy_env v) path (toy_state path content) =
     (Inr (hex_EncodeToString (md5_Sum (toy_env v) content)), toy_state path content)"
  by (simp add: calculateFileChecksum_def os_Open_def file_ReadAll_def next_fault_def
      toy_state_def)

lemma toy_imaging_Open:
  "imaging_Open (toy_env v) path (toy_state path content) =
     (case toy_Decode content of
        None \<Rightarrow> (Inl DecodeError, toy_state path content)
      | Some (img, format) \<Rightarrow> (Inr img, toy_state path content))"
  by (simp add: imaging_Open_def os_Open_def file_ReadAll_def next_fault_def
      toy_state_def toy_env_def split: option.splits)

lemma toy_os_Create:
  "os_Create path (toy_state path content) = (None, toy_state path [])"
  by (simp add: os_Create_def next_fault_def toy_state_def)

section \<open>Single-file processing: the claims\<close>

text \<open>
  Claim C6. Single-file processing of a path whose lower-cased extension is not one of
  .jpg, .jpeg, .png, .gif, .webp returns the unsupported-extension error at once: the
  state returned is the state given, so no checksum was computed, no system call was made
  and the bytes of the file are those it had.
\<close>

theorem unsupported_extension_rejected:
  assumes "strings_ToLower env (filepath_Ext path) \<notin> {''.jpg'', ''.jpeg'', ''.png'', ''.gif'', ''.webp''}"
  shows "processFile env path st =
           (Some (UnsupportedFileExtension (strings_ToLower env (filepath_Ext path))), st)"
  using assms by (simp add: processFile_unsupported supported_iff)

theorem unsupported_extension_rejected_witness:
  "strings_ToLower (toy_env False) (filepath_Ext ''notes.TXT'')
     \<notin> {''.jpg'', ''.jpeg'', ''.png'', ''.gif'', ''.webp''}
   \<and> processFile (toy_env False) ''notes.TXT'' (toy_state ''notes.TXT'' [104, 105])
       = (Some (UnsupportedFileExtension ''.txt''), toy_state ''notes.TXT'' [104, 105])"
proof -
  have low: "strings_ToLower (toy_env False) (filepath_Ext ''notes.TXT'') = ''.txt''"
    by (simp add: toy_env_def toy_ToLower_def filepath_Ext_def)
  then have h: "strings_ToLower (toy_env False) (filepath_Ext ''notes.TXT'')
     \<notin> {''.jpg'', ''.jpeg'', ''.png'', ''.gif'', ''.webp''}"
    by simp
  from unsupported_extension_rejected [OF h, of "toy_state ''notes.TXT'' [104, 105]"] low h
  show ?thesis by simp
qed

text \<open>
  Claim C8. The checksum calculator is deterministic: two runs over files with the same
  bytes, at any two paths and in any two states, give the same digest whenever both return
  one, and a readable file does give one, the hex encoding of the MD5 sum of its bytes.
  With the 16-byte sums MD5 produces, the digest is a string of 32 hexadecimal digits. The
  report compares the two digests by equality only: in the one-line report, two pairs of
  digests that are equal or different alike give the same report.
\<close>

theorem checksum_deterministic:
  assumes "\<forall>content. length (md5_Sum env content) = 16"
    and "fs st1 path1 = fs st2 path2"
  shows "(\<forall>digest1 digest2.
            fst (calculateFileChecksum env path1 st1) = Inr digest1 \<and>
            fst (calculateFileChecksum env path2 st2) = Inr digest2 \<longrightarrow>
              digest1 = digest2 \<and> length digest1 = 32 \<and>
              set digest1 \<subseteq> set ''0123456789abcdef'')
       \<and> (\<forall>content. fs st1 path1 = Some (File content) \<and> True \<notin> set (take 2 (faults st1)) \<longrightarrow>
            fst (calculateFileChecksum env path1 st1)
              = Inr (hex_EncodeToString (md5_Sum env content)))
       \<and> (\<not> verbose env \<and> ((a = b) = (c = d)) \<longrightarrow>
            report env path a b st = report env path c d st)"
proof (intro conjI allI impI)
  fix digest1 digest2
  assume ok: "fst (calculateFileChecksum env path1 st1) = Inr digest1 \<and>
              fst (calculateFileChecksum env path2 st2) = Inr digest2"
  from ok obtain c1 where c1: "fs st1 path1 = Some (File c1)"
      "digest1 = hex_EncodeToString (md5_Sum env c1)"
    by (blast dest: calculateFileChecksum_Inr)
  from ok obtain c2 where c2: "fs st2 path2 = Some (File c2)"
      "digest2 = hex_EncodeToString (md5_Sum env c2)"
    by (blast dest: calculateFileChecksum_Inr)
  from c1 c2 assms(2) show "digest1 = digest2" by simp
  from c1 assms(1) show "length digest1 = 32"
    by (simp add: length_hex_EncodeToString)
  from c1 show "set digest1 \<subseteq> set ''0123456789abcdef''"
    using set_hex_EncodeToString [of "md5_Sum env c1"] by (simp only: hextable_def)
next
  fix content
  assume "fs st1 path1 = Some (File content) \<and> True \<notin> set (take 2 (faults st1))"
  then show "fst (calculateFileChecksum env path1 st1)
              = Inr (hex_EncodeToString (md5_Sum env content))"
    by (simp add: calculateFileChecksum_ok)
next
  assume "\<not> verbose env \<and> ((a = b) = (c = d))"
  then show "report env path a b st = report env path c d st"
    by (simp add: report_def)
qed

theorem checksum_deterministic_witness:
  "fst (calculateFileChecksum (toy_env False) ''a.png'' (toy_state ''a.png'' [80, 1, 1, 171]))
     = Inr ''000000000000000000000000000000fd''
   \<and> fst (calculateFileChecksum (toy_env False) ''copy.png'' (toy_state ''copy.png'' [80, 1, 1, 171]))
     = Inr ''000000000000000000000000000000fd''
   \<and> length ''000000000000000000000000000000fd'' = 32"
proof -
  let ?s1 = "toy_state ''a.png'' [80, 1, 1, 171]"
  let ?s2 = "toy_state ''copy.png'' [80, 1, 1, 171]"
  have h1: "\<forall>content. length (md5_Sum (toy_env False) content) = 16"
    by (simp add: toy_env_def)
  have h2: "fs ?s1 ''a.png'' = fs ?s2 ''copy.png''"
    by (simp add: toy_state_def)
  have h3: "fs ?s1 ''a.png'' = Some (File [80, 1, 1, 171]) \<and> True \<notin> set (take 2 (faults ?s1))"
    by (simp add: toy_state_def)
  have h4: "fs ?s2 ''copy.png'' = Some (File [80, 1, 1, 171]) \<and> True \<notin> set (take 2 (faults ?s2))"
    by (simp add: toy_state_def)
  have d: "hex_EncodeToString (md5_Sum (toy_env False) [80, 1, 1, 171])
             = ''000000000000000000000000000000fd''"
    by (simp add: toy_env_def hextable_def)
  from checksum_deterministic [OF h1 h2] h3 d
  have c1: "fst (calculateFileChecksum (toy_env False) ''a.png'' ?s1)
     = Inr ''000000000000000000000000000000fd''"
    by metis
  from checksum_deterministic [OF h1 h2 [symmetric]] h4 d
  have c2: "fst (calculateFileChecksum (toy_env False) ''copy.png'' ?s2)
     = Inr ''000000000000000000000000000000fd''"
    by metis
  from checksum_deterministic [OF h1 h2] c1 c2
  have "length ''000000000000000000000000000000fd'' = 32"
    by blast
  with c1 c2 show ?thesis by blast
qed

text \<open>
  Claim C3. For a JPEG file, the quality given to the encoder is the estimated quality
  minus 1 when the estimate exceeds 90 and the estimated quality plus 1 otherwise: once
  the output file is created, the file holds what the JPEG encoder writes at that quality,
  and that quality differs from the estimate.
\<close>

theorem jpeg_quality_nudged:
  assumes "strings_ToLower env (filepath_Ext path) = ''.jpg'' \<or>
           strings_ToLower env (filepath_Ext path) = ''.jpeg''"
    and "calculateFileChecksum env path st = (Inr originalChecksum, st1)"
    and "estimateJpegQuality env path st1 = (jpegQuality, st2)"
    and "imaging_Open env path st2 = (Inr src, st3)"
    and "os_Create path st3 = (None, st4)"
  shows "fs (snd (processFile env path st)) path =
           Some (File (fst (jpeg_Encode env (imaging_AdjustBrightness env src 0.1)
              (if jpegQuality > 90 then jpegQuality - 1 else jpegQuality + 1))))
       \<and> (if jpegQuality > 90 then jpegQuality - 1 else jpegQuality + 1) \<noteq> jpegQuality"
proof -
  let ?ext = "strings_ToLower env (filepath_Ext path)"
  have sup: "supported ?ext"
    using assms(1) by (auto simp: supported_iff)
  have est: "estimate env ?ext path st1 = ((jpegQuality, DefaultCompression), st2)"
    by (rule estimate_jpeg [OF assms(1) assms(3)])
  from processFile_encodes [OF sup assms(2) est assms(4) assms(5)] assms(1)
  obtain out saveErr where
    "(out, saveErr) = jpeg_Encode env (imaging_AdjustBrightness env src 0.1)
        (adjustedQualityOf jpegQuality)"
    "fs (snd (processFile env path st)) = (fs st3)(path \<mapsto> File out)"
    by auto
  then have "fs (snd (processFile env path st)) path =
     Some (File (fst (jpeg_Encode env (imaging_AdjustBrightness env src 0.1)
        (adjustedQualityOf jpegQuality))))"
    by (metis fst_conv fun_upd_same)
  then show ?thesis
    by (simp add: adjustedQualityOf_def)
qed

theorem jpeg_quality_nudged_witness:
  "strings_ToLower (toy_env False) (filepath_Ext ''a.JPG'') = ''.jpg''
   \<and> estimateJpegQuality (toy_env False) ''a.JPG'' (toy_state ''a.JPG'' [74, 2, 2, 9, 9, 9, 9])
       = (95, toy_state ''a.JPG'' [74, 2, 2, 9, 9, 9, 9])
   \<and> fs (snd (processFile (toy_env False) ''a.JPG'' (toy_state ''a.JPG'' [74, 2, 2, 9, 9, 9, 9])))
        ''a.JPG'' = Some (File [74, 2, 2, 94, 10, 10, 10, 10])"
proof -
  let ?env = "toy_env False"
  let ?st = "toy_state ''a.JPG'' [74, 2, 2, 9, 9, 9, 9]"
  have h1: "strings_ToLower ?env (filepath_Ext ''a.JPG'') = ''.jpg''"
    by (simp add: toy_env_def toy_ToLower_def filepath_Ext_def)
  have h2: "calculateFileChecksum ?env ''a.JPG'' ?st
              = (Inr (hex_EncodeToString (md5_Sum ?env [74, 2, 2, 9, 9, 9, 9])), ?st)"
    by (rule toy_checksum)
  have h3: "estimateJpegQuality ?env ''a.JPG'' ?st = (95, ?st)"
    by (simp add: estimateJpegQuality_def os_Open_def file_Stat_def file_ReadAll_def
        next_fault_def toy_state_def toy_env_def toy_Decode_def float64_quot_def
        jpegQualityOf_def)
  have h4: "imaging_Open ?env ''a.JPG'' ?st = (Inr (2, 2, [9, 9, 9, 9]), ?st)"
    by (simp add: toy_imaging_Open toy_Decode_def)
  have h5: "os_Create ''a.JPG'' ?st = (None, toy_state ''a.JPG'' [])"
    by (rule toy_os_Create)
  from jpeg_quality_nudged [OF disjI1 [OF h1] h2 h3 h4 h5]
  have "fs (snd (processFile ?env ''a.JPG'' ?st)) ''a.JPG'' =
          Some (File (fst (jpeg_Encode ?env (imaging_AdjustBrightness ?env (2, 2, [9, 9, 9, 9]) 0.1)
             (if (95::int) > 90 then 95 - 1 else 95 + 1))))"
    by blast
  then have "fs (snd (processFile ?env ''a.JPG'' ?st)) ''a.JPG''
      = Some (File [74, 2, 2, 94, 10, 10, 10, 10])"
    by (simp add: toy_env_def)
  with h1 h3 show ?thesis by blast
qed

text \<open>
  Claim C1, as stated: every PNG file is re-encoded at best compression, whatever level
  the estimator produced. It fails on a small file: a PNG of seven bytes is estimated at no
  compression, and the file written is the encoder's output at no compression, not its
  output at best compression.
\<close>

theorem png_small_file_not_best_compression:
  "fst (estimatePngCompressionLevel (toy_env False) ''a.png''
         (toy_state ''a.png'' [80, 2, 2, 9, 9, 9, 9])) = NoCompression
   \<and> fs (snd (processFile (toy_env False) ''a.png'' (toy_state ''a.png'' [80, 2, 2, 9, 9, 9, 9])))
        ''a.png''
      = Some (File (fst (png_Encode (toy_env False) NoCompression
           (imaging_AdjustBrightness (toy_env False) (2, 2, [9, 9, 9, 9]) 0.1))))
   \<and> fs (snd (processFile (toy_env False) ''a.png'' (toy_state ''a.png'' [80, 2, 2, 9, 9, 9, 9])))
        ''a.png''
      \<noteq> Some (File (fst (png_Encode (toy_env False) BestCompression
           (imaging_AdjustBrightness (toy_env False) (2, 2, [9, 9, 9, 9]) 0.1))))"
  by (simp add: processFile_def toy_env_def toy_state_def filepath_Ext_def toy_ToLower_def
     supported_def supportedExtensions_def calculateFileChecksum_def os_Open_def next_fault_def
     file_ReadAll_def estimate_def estimatePngCompressionLevel_def file_Stat_def pngLevelOf_def
     imaging_Open_def toy_Decode_def os_Create_def saveImage_def file_Write_def toy_level_code_def
     report_def hextable_def Let_def)

text \<open>
  Claim C1, amended. Every PNG file is re-encoded at the compression level the estimator
  produced for that file: once the output file is created, the file holds what the PNG
  encoder writes at the estimated level. When the estimator could open and stat the
  file, that level is the step-table value of the file size, which is best compression
  exactly for files of 1MB and more.
\<close>

theorem png_encoded_at_estimated_level:
  assumes "strings_ToLower env (filepath_Ext path) = ''.png''"
    and "calculateFileChecksum env path st = (Inr originalChecksum, st1)"
    and "estimatePngCompressionLevel env path st1 = (compressionLevel, st2)"
    and "imaging_Open env path st2 = (Inr src, st3)"
    and "os_Create path st3 = (None, st4)"
  shows "fs (snd (processFile env path st)) path =
           Some (File (fst (png_Encode env compressionLevel
              (imaging_AdjustBrightness env src 0.1))))
       \<and> (\<forall>content. fs st path = Some (File content) \<and> True \<notin> set (take 2 (faults st1)) \<longrightarrow>
             compressionLevel =
               step_lookup pngLevelTable (\<lambda>threshold. int (length content) < threshold)
                 BestCompression
             \<and> (compressionLevel = BestCompression \<longleftrightarrow> 1024 * 1024 \<le> int (length content)))"
proof -
  let ?ext = "strings_ToLower env (filepath_Ext path)"
  have sup: "supported ?ext"
    using assms(1) by (simp add: supported_iff)
  have est: "estimate env ?ext path st1 = ((75, compressionLevel), st2)"
    using estimate_png [OF assms(3)] assms(1) by simp
  from processFile_encodes [OF sup assms(2) est assms(4) assms(5)] assms(1)
  obtain out saveErr where
    "(out, saveErr) = png_Encode env compressionLevel (imaging_AdjustBrightness env src 0.1)"
    "fs (snd (processFile env path st)) = (fs st3)(path \<mapsto> File out)"
    by auto
  then have written: "fs (snd (processFile env path st)) path =
     Some (File (fst (png_Encode env compressionLevel (imaging_AdjustBrightness env src 0.1))))"
    by (metis fst_conv fun_upd_same)
  have "only_faults st st1"
    using calculateFileChecksum_only_faults [of st env path] assms(2) by simp
  then have same: "fs st1 = fs st"
    by (simp add: only_faults_def)
  have "compressionLevel = pngLevelOf (int (length content))"
    if "fs st path = Some (File content) \<and> True \<notin> set (take 2 (faults st1))" for content
    using est_png_ok [of st1 path content env] that same assms(3) by simp
  with written show ?thesis
    by (simp add: pngLevelOf_table [symmetric] pngLevelOf_best)
qed

theorem png_encoded_at_estimated_level_witness:
  "strings_ToLower (toy_env False) (filepath_Ext ''a.png'') = ''.png''
   \<and> estimatePngCompressionLevel (toy_env False) ''a.png''
        (toy_state ''a.png'' [80, 2, 2, 9, 9, 9, 9])
       = (NoCompression, toy_state ''a.png'' [80, 2, 2, 9, 9, 9, 9])
   \<and> fs (snd (processFile (toy_env False) ''a.png'' (toy_state ''a.png'' [80, 2, 2, 9, 9, 9, 9])))
        ''a.png'' = Some (File [80, 2, 2, 1, 10, 10, 10, 10])"
proof -
  let ?env = "toy_env False"
  let ?st = "toy_state ''a.png'' [80, 2, 2, 9, 9, 9, 9]"
  have h1: "strings_ToLower ?env (filepath_Ext ''a.png'') = ''.png''"
    by (simp add: toy_env_def toy_ToLower_def filepath_Ext_def)
  have h2: "calculateFileChecksum ?env ''a.png'' ?st
              = (Inr (hex_EncodeToString (md5_Sum ?env [80, 2, 2, 9, 9, 9, 9])), ?st)"
    by (rule toy_checksum)
  have h3: "estimatePngCompressionLevel ?env ''a.png'' ?st = (NoCompression, ?st)"
    by (simp add: estimatePngCompressionLevel_def os_Open_def file_Stat_def
        next_fault_def toy_state_def pngLevelOf_def)
  have h4: "imaging_Open ?env ''a.png'' ?st = (Inr (2, 2, [9, 9, 9, 9]), ?st)"
    by (simp add: toy_imaging_Open toy_Decode_def)
  have h5: "os_Create ''a.png'' ?st = (None, toy_state ''a.png'' [])"
    by (rule toy_os_Create)
  from png_encoded_at_estimated_level [OF h1 h2 h3 h4 h5]
  have "fs (snd (processFile ?env ''a.png'' ?st)) ''a.png'' =
          Some (File (fst (png_Encode ?env NoCompression
             (imaging_AdjustBrightness ?env (2, 2, [9, 9, 9, 9]) 0.1))))"
    by blast
  then have "fs (snd (processFile ?env ''a.png'' ?st)) ''a.png''
      = Some (File [80, 2, 2, 1, 10, 10, 10, 10])"
    by (simp add: toy_env_def toy_level_code_def)
  with h1 h3 show ?thesis by blast
qed

text \<open>
  Claim C10. Single-file processing is not atomic on an encoding failure. Once the output
  file has been created, which truncates the original to the empty file, an encoder that
  returns an error makes \<open>processFile\<close> return the failed-to-save error, and the file is
  left with the bytes the encoder had written before it failed (none, or a partial
  image): nothing restores the original content.
\<close>

theorem encode_failure_leaves_file_destroyed:
  assumes "supported (strings_ToLower env (filepath_Ext path))"
    and "calculateFileChecksum env path st = (Inr originalChecksum, st1)"
    and "estimate env (strings_ToLower env (filepath_Ext path)) path st1
           = ((jpegQuality, compressionLevel), st2)"
    and "imaging_Open env path st2 = (Inr src, st3)"
    and "os_Create path st3 = (None, st4)"
    and "(if strings_ToLower env (filepath_Ext path) = ''.jpg'' \<or>
             strings_ToLower env (filepath_Ext path) = ''.jpeg''
          then jpeg_Encode env (imaging_AdjustBrightness env src 0.1)
                 (adjustedQualityOf jpegQuality)
          else if strings_ToLower env (filepath_Ext path) = ''.png''
          then png_Encode env compressionLevel (imaging_AdjustBrightness env src 0.1)
          else imaging_Save env (imaging_AdjustBrightness env src 0.1) path)
         = (written, Some saveErr)"
  shows "fst (processFile env path st) = Some (FailedToSaveImage saveErr)
       \<and> fs st4 path = Some (File [])
       \<and> fs (snd (processFile env path st)) path = Some (File written)"
proof -
  from processFile_encodes [OF assms(1-5)]
  obtain out err where out:
    "(out, err) \<in>
        (if strings_ToLower env (filepath_Ext path) = ''.jpg'' \<or>
            strings_ToLower env (filepath_Ext path) = ''.jpeg''
         then {jpeg_Encode env (imaging_AdjustBrightness env src 0.1)
                 (adjustedQualityOf jpegQuality)}
         else if strings_ToLower env (filepath_Ext path) = ''.png''
         then {png_Encode env compressionLevel (imaging_AdjustBrightness env src 0.1)}
         else {imaging_Save env (imaging_AdjustBrightness env src 0.1) path})"
    "fs (snd (processFile env path st)) = (fs st3)(path \<mapsto> File out)"
    "\<forall>e. err = Some e \<longrightarrow>
         processFile env path st =
           (Some (FailedToSaveImage e),
            snd (saveImage env (strings_ToLower env (filepath_Ext path)) jpegQuality
                   compressionLevel (imaging_AdjustBrightness env src 0.1) path st4))"
    by blast
  from out(1) assms(6) have eq: "out = written" "err = Some saveErr"
    by (auto split: if_splits)
  from out(3) eq have "fst (processFile env path st) = Some (FailedToSaveImage saveErr)"
    by simp
  moreover have "fs st4 path = Some (File [])"
    using os_Create_None [OF assms(5)] by simp
  moreover from out(2) eq have "fs (snd (processFile env path st)) path = Some (File written)"
    by simp
  ultimately show ?thesis by blast
qed

theorem encode_failure_leaves_file_destroyed_witness:
  "supported (strings_ToLower (toy_env False) (filepath_Ext ''a.jpg''))
   \<and> fs (toy_state ''a.jpg'' [74, 0, 2]) ''a.jpg'' = Some (File [74, 0, 2])
   \<and> fst (processFile (toy_env False) ''a.jpg'' (toy_state ''a.jpg'' [74, 0, 2]))
       = Some (FailedToSaveImage EncodeError)
   \<and> fs (snd (processFile (toy_env False) ''a.jpg'' (toy_state ''a.jpg'' [74, 0, 2]))) ''a.jpg''
       = Some (File [])"
proof -
  let ?env = "toy_env False"
  let ?st = "toy_state ''a.jpg'' [74, 0, 2]"
  have low: "strings_ToLower ?env (filepath_Ext ''a.jpg'') = ''.jpg''"
    by (simp add: toy_env_def toy_ToLower_def filepath_Ext_def)
  have h1: "supported (strings_ToLower ?env (filepath_Ext ''a.jpg''))"
    by (simp add: low supported_iff)
  have h2: "calculateFileChecksum ?env ''a.jpg'' ?st
              = (Inr (hex_EncodeToString (md5_Sum ?env [74, 0, 2])), ?st)"
    by (rule toy_checksum)
  have "estimateJpegQuality ?env ''a.jpg'' ?st = (95, ?st)"
    by (simp add: estimateJpegQuality_def os_Open_def file_Stat_def file_ReadAll_def
        next_fault_def toy_state_def toy_env_def toy_Decode_def float64_quot_def
        jpegQualityOf_def)
  then have h3: "estimate ?env (strings_ToLower ?env (filepath_Ext ''a.jpg'')) ''a.jpg'' ?st
      = ((95, DefaultCompression), ?st)"
    by (simp add: low estimate_def)
  have h4: "imaging_Open ?env ''a.jpg'' ?st = (Inr (0, 2, []), ?st)"
    by (simp add: toy_imaging_Open toy_Decode_def)
  have h5: "os_Create ''a.jpg'' ?st = (None, toy_state ''a.jpg'' [])"
    by (rule toy_os_Create)
  have h6: "(if strings_ToLower ?env (filepath_Ext ''a.jpg'') = ''.jpg'' \<or>
             strings_ToLower ?env (filepath_Ext ''a.jpg'') = ''.jpeg''
          then jpeg_Encode ?env (imaging_AdjustBrightness ?env (0, 2, []) 0.1)
                 (adjustedQualityOf 95)
          else if strings_ToLower ?env (filepath_Ext ''a.jpg'') = ''.png''
          then png_Encode ?env DefaultCompression (imaging_AdjustBrightness ?env (0, 2, []) 0.1)
          else imaging_Save ?env (imaging_AdjustBrightness ?env (0, 2, []) 0.1) ''a.jpg'')
         = ([], Some EncodeError)"
    by (simp add: low) (simp add: toy_env_def)
  have h0: "fs ?st ''a.jpg'' = Some (File [74, 0, 2])"
    by (simp add: toy_state_def)
  from encode_failure_leaves_file_destroyed [OF h1 h2 h3 h4 h5 h6] h1 h0
  show ?thesis by blast
qed

section \<open>The directory walk\<close>

subsection \<open>Effects of one file\<close>

lemma dirs_kept_refl [simp]: "dirs_kept st st"
  by (simp add: dirs_kept_def)

lemma dirs_kept_trans: "dirs_kept a b \<Longrightarrow> dirs_kept b c \<Longrightarrow> dirs_kept a c"
  by (simp add: dirs_kept_def)

lemma touches_only_refl [simp]: "touches_only A D st st"
  by (simp add: touches_only_def)

lemma touches_only_trans:
  assumes "touches_only A D a b" and "touches_only A D b c"
  shows "touches_only A D a c"
proof -
  from assms obtain o1 o2 where o:
    "stdout b = stdout a @ o1" "\<forall>l \<in> set o1. \<forall>p. out_path l = Some p \<longrightarrow> p \<in> A"
    "stdout c = stdout b @ o2" "\<forall>l \<in> set o2. \<forall>p. out_path l = Some p \<longrightarrow> p \<in> A"
    unfolding touches_only_def by blast
  from assms obtain e1 e2 where e:
    "stderr b = stderr a @ e1"
    "\<forall>l \<in> set e1. (\<forall>p. err_file_path l = Some p \<longrightarrow> p \<in> A) \<and>
                           (\<forall>p. err_dir_path l = Some p \<longrightarrow> p \<in> D)"
    "stderr c = stderr b @ e2"
    "\<forall>l \<in> set e2. (\<forall>p. err_file_path l = Some p \<longrightarrow> p \<in> A) \<and>
                           (\<forall>p. err_dir_path l = Some p \<longrightarrow> p \<in> D)"
    unfolding touches_only_def by blast
  have "stdout c = stdout a @ (o1 @ o2)" using o by simp
  moreover have "\<forall>l \<in> set (o1 @ o2). \<forall>p. out_path l = Some p \<longrightarrow> p \<in> A"
    using o by auto
  moreover have "stderr c = stderr a @ (e1 @ e2)" using e by simp
  moreover have "\<forall>l \<in> set (e1 @ e2). (\<forall>p. err_file_path l = Some p \<longrightarrow> p \<in> A) \<and>
                           (\<forall>p. err_dir_path l = Some p \<longrightarrow> p \<in> D)"
    using e by auto
  moreover have "\<forall>q. q \<notin> A \<longrightarrow> fs c q = fs a q"
    using assms unfolding touches_only_def by simp
  moreover have "dirs_kept a c"
    using assms unfolding touches_only_def by (blast intro: dirs_kept_trans)
  moreover have "faults a = [] \<longrightarrow> faults c = []"
    using assms unfolding touches_only_def by blast
  ultimately show ?thesis
    unfolding touches_only_def by blast
qed

lemma touches_only_mono:
  "touches_only A D st st' \<Longrightarrow> A \<subseteq> A' \<Longrightarrow> D \<subseteq> D' \<Longrightarrow> touches_only A' D' st st'"
  unfolding touches_only_def by (elim conjE exE, intro conjI) blast+

lemma only_faults_touches: "only_faults st st' \<Longrightarrow> touches_only A D st st'"
  by (auto simp: only_faults_def touches_only_def dirs_kept_def)

lemma os_Create_touches: "touches_only {path} D st (snd (os_Create path st))"
  using os_Create_cases [of path st]
  by (auto simp: touches_only_def dirs_kept_def only_faults_def split: if_splits)

lemma saveImage_touches:
  assumes "fs st path = Some (File old)"
  shows "touches_only {path} D st (snd (saveImage env ext q lvl img path st))"
proof -
  from saveImage_cases [OF assms, of env ext q lvl img]
  obtain out where out:
    "fs (snd (saveImage env ext q lvl img path st)) = (fs st)(path \<mapsto> File (old @ out))"
    "stdout (snd (saveImage env ext q lvl img path st)) =
            stdout st @ (if verbose env \<and> (ext = ''.jpg'' \<or> ext = ''.jpeg'')
                         then [JpegQualityAdjustment q (adjustedQualityOf q)] else [])"
    "stderr (snd (saveImage env ext q lvl img path st)) = stderr st"
    "faults (snd (saveImage env ext q lvl img path st)) = faults st"
    by blast
  then show ?thesis
    using assms by (auto simp: touches_only_def dirs_kept_def)
qed

lemma report_touches: "touches_only {path} D st (report env path a b st)"
  by (auto simp: touches_only_def dirs_kept_def)

lemma processFile_touches: "touches_only {path} D st (snd (processFile env path st))"
proof -
  let ?ext = "strings_ToLower env (filepath_Ext path)"
  let ?c = "calculateFileChecksum env path st"
  let ?e = "estimate env ?ext path (snd ?c)"
  let ?o = "imaging_Open env path (snd ?e)"
  let ?cr = "os_Create path (snd ?o)"
  let ?sv = "saveImage env ?ext (fst (fst ?e)) (snd (fst ?e))
               (imaging_AdjustBrightness env (projr (fst ?o)) 0.1) path (snd ?cr)"
  let ?n = "calculateFileChecksum env path (snd ?sv)"
  note tr = touches_only_trans [where A = "{path}" and D = D]
  have c: "touches_only {path} D st (snd ?c)"
    by (simp add: only_faults_touches)
  have e: "touches_only {path} D st (snd ?e)"
    by (rule tr [OF c]) (simp add: only_faults_touches)
  have o: "touches_only {path} D st (snd ?o)"
    by (rule tr [OF e]) (simp add: only_faults_touches)
  have cr: "touches_only {path} D st (snd ?cr)"
    by (rule tr [OF o os_Create_touches])
  have sv: "touches_only {path} D st (snd ?sv)" if "fst ?cr = None"
  proof -
    have "fs (snd ?cr) path = Some (File [])"
      using os_Create_cases [of path "snd ?o"] that by auto
    then show ?thesis
      by (rule tr [OF cr saveImage_touches])
  qed
  have n: "touches_only {path} D st (snd ?n)" if "fst ?cr = None"
    by (rule tr [OF sv [OF that]]) (simp add: only_faults_touches)
  have r: "touches_only {path} D st (report env path a b (snd ?n))" if "fst ?cr = None" for a b
    by (rule tr [OF n [OF that] report_touches])
  show ?thesis
    using c o cr sv n r by (simp add: processFile_proj Let_def)
qed

lemma touches_only_stdout:
  "touches_only A D st st' \<Longrightarrow> stdout st' = stdout st @ new_stdout st st'"
  by (auto simp: touches_only_def new_stdout_def)

lemma touches_only_stderr:
  "touches_only A D st st' \<Longrightarrow> stderr st' = stderr st @ new_stderr st st'"
  by (auto simp: touches_only_def new_stderr_def)

lemma processFile_success:
  assumes "fst (processFile env path st) = None"
  shows "\<exists>s a b. snd (processFile env path st) = report env path a b s \<and>
           touches_only {path} {} st s"
proof -
  let ?ext = "strings_ToLower env (filepath_Ext path)"
  let ?c = "calculateFileChecksum env path st"
  let ?e = "estimate env ?ext path (snd ?c)"
  let ?o = "imaging_Open env path (snd ?e)"
  let ?cr = "os_Create path (snd ?o)"
  let ?sv = "saveImage env ?ext (fst (fst ?e)) (snd (fst ?e))
               (imaging_AdjustBrightness env (projr (fst ?o)) 0.1) path (snd ?cr)"
  let ?n = "calculateFileChecksum env path (snd ?sv)"
  note tr = touches_only_trans [where A = "{path}" and D = "{}"]
  from assms have ok: "fst ?cr = None"
    "snd (processFile env path st) = report env path (projr (fst ?c)) (projr (fst ?n)) (snd ?n)"
    by (simp_all add: processFile_proj Let_def split: if_splits)
  have "touches_only {path} {} st (snd (imaging_Open env path (snd ?e)))"
    using only_faults_chain3 [of env path st "fst ?c" "snd ?c" ?ext "fst ?e" "snd ?e"
        "fst ?o" "snd ?o"]
    by (simp add: only_faults_touches)
  then have cr: "touches_only {path} {} st (snd ?cr)"
    by (rule tr [OF _ os_Create_touches])
  have "fs (snd ?cr) path = Some (File [])"
    using os_Create_cases [of path "snd ?o"] ok(1) by auto
  then have "touches_only {path} {} st (snd ?sv)"
    by (rule tr [OF cr saveImage_touches])
  then have "touches_only {path} {} st (snd ?n)"
    by (rule tr) (simp add: only_faults_touches)
  with ok(2) show ?thesis by blast
qed

lemma set_map_filter_eq: "set (List.map_filter g xs) = {y. \<exists>x \<in> set xs. g x = Some y}"
  by (induction xs) (auto split: option.splits)

lemma map_filter_append:
  "List.map_filter g (xs @ ys) = List.map_filter g xs @ List.map_filter g ys"
  by (induction xs) (auto split: option.splits)

lemma processFile_reports:
  assumes "fst (processFile env path st) = None"
  shows "path \<in> set (List.map_filter out_path (new_stdout st (snd (processFile env path st))))"
proof -
  from processFile_success [OF assms] obtain s a b where
    s: "snd (processFile env path st) = report env path a b s" "touches_only {path} {} st s"
    by blast
  from s(2) obtain outs where "stdout s = stdout st @ outs"
    unfolding touches_only_def by blast
  then have "new_stdout st (report env path a b s) =
     outs @ (if verbose env
        then [ProcessedVerbose path, OriginalChecksum a, NewChecksum b, ChecksumChanged (a \<noteq> b)]
        else [ProcessedLine path (a \<noteq> b)])"
    by (simp add: new_stdout_def)
  then show ?thesis
    by (simp add: s(1) map_filter_append)
qed

subsection \<open>Levels of the tree\<close>

lemma dirs_kept_listing: "dirs_kept st st' \<Longrightarrow> listing (fs st') = listing (fs st)"
proof (rule ext)
  fix d
  assume k: "dirs_kept st st'"
  show "listing (fs st') d = listing (fs st) d"
  proof (cases "\<exists>es. fs st d = Some (Dir es)")
    case True
    then obtain es where "fs st d = Some (Dir es)" by blast
    moreover from this k have "fs st' d = Some (Dir es)" by (simp add: dirs_kept_def)
    ultimately show ?thesis by (simp add: listing_def)
  next
    case False
    moreover from this k have "\<not> (\<exists>es. fs st' d = Some (Dir es))" by (simp add: dirs_kept_def)
    ultimately show ?thesis
      by (auto simp: listing_def split: option.splits node.splits)
  qed
qed

lemma subdirs_cong: "listing f = listing g \<Longrightarrow> subdirs env f = subdirs env g"
  by (rule ext) (simp add: subdirs_def)

lemma image_files_cong: "listing f = listing g \<Longrightarrow> image_files env f = image_files env g"
  by (rule ext) (simp add: image_files_def)

lemma dirs_at_cong: "listing f = listing g \<Longrightarrow> dirs_at env f p k = dirs_at env g p k"
  by (induction k) (simp_all add: subdirs_cong [of f g])

lemma dirs_upto_cong: "listing f = listing g \<Longrightarrow> dirs_upto env f p n = dirs_upto env g p n"
proof -
  assume same: "listing f = listing g"
  have "dirs_at env f p = dirs_at env g p"
    by (rule ext) (rule dirs_at_cong [OF same])
  then show ?thesis
    by (simp only: dirs_upto_def)
qed

lemma files_upto_cong: "listing f = listing g \<Longrightarrow> files_upto env f p n = files_upto env g p n"
  by (simp add: files_upto_def dirs_upto_cong [of f g] image_files_cong [of f g])

lemma set_dirs_at_Suc:
  "set (dirs_at env f p (Suc k)) = (\<Union>s \<in> set (subdirs env f p). set (dirs_at env f s k))"
proof (induction k)
  case 0
  show ?case by simp
next
  case (Suc k)
  have "set (dirs_at env f p (Suc (Suc k))) =
          (\<Union>d \<in> set (dirs_at env f p (Suc k)). set (subdirs env f d))"
    by simp
  also have "\<dots> = (\<Union>s \<in> set (subdirs env f p). \<Union>d \<in> set (dirs_at env f s k). set (subdirs env f d))"
    unfolding Suc.IH by blast
  also have "\<dots> = (\<Union>s \<in> set (subdirs env f p). set (dirs_at env f s (Suc k)))"
    by simp
  finally show ?case .
qed

lemma set_dirs_upto:
  "set (dirs_upto env f p n) = (\<Union>k \<in> {..n}. set (dirs_at env f p k))"
proof -
  have "set [0..<Suc n] = {..n}"
    by (simp only: set_upt atLeast0LessThan lessThan_Suc_atMost)
  then show ?thesis
    by (simp add: dirs_upto_def del: upt_Suc)
qed

lemma set_dirs_upto_0: "set (dirs_upto env f p 0) = {p}"
  by (simp add: set_dirs_upto)

lemma set_dirs_upto_Suc:
  "set (dirs_upto env f p (Suc n)) =
     insert p (\<Union>s \<in> set (subdirs env f p). set (dirs_upto env f s n))"
proof -
  have "{..Suc n} = insert 0 (Suc ` {..n})"
    by (auto simp: image_iff) (metis atMost_iff not0_implies_Suc Suc_le_mono)
  then have "set (dirs_upto env f p (Suc n)) =
      set (dirs_at env f p 0) \<union> (\<Union>k \<in> {..n}. set (dirs_at env f p (Suc k)))"
    by (simp add: set_dirs_upto)
  also have "\<dots> = insert p (\<Union>s \<in> set (subdirs env f p). \<Union>k \<in> {..n}. set (dirs_at env f s k))"
    unfolding set_dirs_at_Suc by auto
  finally show ?thesis
    by (simp add: set_dirs_upto)
qed

lemma set_files_upto:
  "set (files_upto env f p n) = (\<Union>d \<in> set (dirs_upto env f p n). set (image_files env f d))"
  by (simp add: files_upto_def)

lemma set_files_upto_0: "set (files_upto env f p 0) = set (image_files env f p)"
  by (simp add: set_files_upto set_dirs_upto_0)

lemma set_files_upto_Suc:
  "set (files_upto env f p (Suc n)) =
     set (image_files env f p) \<union> (\<Union>s \<in> set (subdirs env f p). set (files_upto env f s n))"
  by (simp add: set_files_upto set_dirs_upto_Suc)

lemma image_files_subset: "set (image_files env f p) \<subseteq> set (files_upto env f p n)"
  by (cases n) (simp_all add: set_files_upto_0 set_files_upto_Suc)

subsection \<open>The loop over the entries\<close>

declare processDirectory.simps [simp del]

text \<open>The body of the loop, for one entry.\<close>

lemma processEntries_single:
  "processEntries env path d m [entry] st =
     (if IsDir entry \<and> d < m then
        (case fst (processDirectory env (filepath_Join env path (Name entry)) (d + 1) m st) of
           Some err \<Rightarrow>
             (snd (processDirectory env (filepath_Join env path (Name entry)) (d + 1) m st))
               \<lparr>stderr :=
                  stderr (snd (processDirectory env (filepath_Join env path (Name entry))
                                 (d + 1) m st))
                  @ [ErrorProcessingDirectory (filepath_Join env path (Name entry)) err]\<rparr>
         | None \<Rightarrow> snd (processDirectory env (filepath_Join env path (Name entry)) (d + 1) m st))
      else if \<not> IsDir entry \<and> supported (strings_ToLower env (filepath_Ext (Name entry))) then
        (case fst (processFile env (filepath_Join env path (Name entry)) st) of
           Some err \<Rightarrow>
             (snd (processFile env (filepath_Join env path (Name entry)) st))
               \<lparr>stderr :=
                  stderr (snd (processFile env (filepath_Join env path (Name entry)) st))
                  @ [ErrorProcessingFile (filepath_Join env path (Name entry)) err]\<rparr>
         | None \<Rightarrow> snd (processFile env (filepath_Join env path (Name entry)) st))
      else st)"
  by (simp add: Let_def split: prod.splits option.splits)

lemma processEntries_Cons:
  "processEntries env path d m (entry # later) st =
     processEntries env path d m later (processEntries env path d m [entry] st)"
  by (simp add: Let_def split: prod.splits option.splits)


lemma processDirectory_beyond:
  "m < d \<Longrightarrow> processDirectory env path d m st = (None, st)"
  by (simp add: processDirectory.simps)

lemma processDirectory_readable:
  "d \<le> m \<Longrightarrow> fst (os_ReadDir path st) = Inr entries \<Longrightarrow>
   processDirectory env path d m st =
     (None, processEntries env path d m entries (snd (os_ReadDir path st)))"
  by (cases "os_ReadDir path st")
     (auto simp: processDirectory.simps simp del: os_ReadDir_state)

lemma processDirectory_unreadable:
  "d \<le> m \<Longrightarrow> fst (os_ReadDir path st) = Inl err \<Longrightarrow>
   processDirectory env path d m st = (Some (FailedToReadDirectory err), snd (os_ReadDir path st))"
  by (cases "os_ReadDir path st")
     (auto simp: processDirectory.simps simp del: os_ReadDir_state)

lemma os_ReadDir_Inr:
  "fst (os_ReadDir path st) = Inr entries \<Longrightarrow> fs st path = Some (Dir entries)"
  by (auto simp: os_ReadDir_def next_fault_def
      split: list.splits option.splits node.splits if_splits)

lemma os_ReadDir_quiet:
  "faults st = [] \<Longrightarrow> fs st path = Some (Dir entries) \<Longrightarrow> os_ReadDir path st = (Inr entries, st)"
  by (simp add: os_ReadDir_def next_fault_def)

lemma os_ReadDir_quiet_fail:
  "faults st = [] \<Longrightarrow> \<forall>entries. fs st path \<noteq> Some (Dir entries) \<Longrightarrow>
   os_ReadDir path st = (Inl ReadDirError, st)"
  by (auto simp: os_ReadDir_def next_fault_def split: option.splits node.splits)

lemma os_ReadDir_only_faults [simp]: "only_faults st (snd (os_ReadDir path st))"
  by simp

declare processEntries.simps(2) [simp del]

subsection \<open>The walk stays within the levels up to the maximum depth\<close>

lemma touches_only_log_dir:
  "touches_only A D st st' \<Longrightarrow> s \<in> D \<Longrightarrow>
   touches_only A D st (st'\<lparr>stderr := stderr st' @ [ErrorProcessingDirectory s err]\<rparr>)"
  by (auto simp: touches_only_def dirs_kept_def)

lemma touches_only_log_file:
  "touches_only A D st st' \<Longrightarrow> p \<in> A \<Longrightarrow>
   touches_only A D st (st'\<lparr>stderr := stderr st' @ [ErrorProcessingFile p err]\<rparr>)"
  by (auto simp: touches_only_def dirs_kept_def)

lemma touches_only_listing:
  "touches_only A D st st' \<Longrightarrow> listing (fs st') = listing (fs st)"
  by (rule dirs_kept_listing) (simp add: touches_only_def)

lemma subdir_member:
  "entry \<in> set (listing f p) \<Longrightarrow> IsDir entry \<Longrightarrow>
   filepath_Join env p (Name entry) \<in> set (subdirs env f p)"
  by (auto simp: subdirs_def)

lemma image_file_member:
  "entry \<in> set (listing f p) \<Longrightarrow> \<not> IsDir entry \<Longrightarrow>
   supported (strings_ToLower env (filepath_Ext (Name entry))) \<Longrightarrow>
   filepath_Join env p (Name entry) \<in> set (image_files env f p)"
  by (auto simp: image_files_def)

lemma self_in_dirs_upto: "s \<in> set (dirs_upto env f s k)"
  by (auto simp: set_dirs_upto intro: bexI [of _ 0])

lemma processEntries_single_touches:
  assumes sub: "\<And>s st'. d < m \<Longrightarrow>
        touches_only (set (files_upto env (fs st') s k)) (set (dirs_upto env (fs st') s k)) st'
          (snd (processDirectory env s (d + 1) m st'))"
    and files: "set (image_files env f0 p) \<subseteq> A"
    and below: "\<And>s. d < m \<Longrightarrow> s \<in> set (subdirs env f0 p) \<Longrightarrow>
        set (files_upto env f0 s k) \<subseteq> A \<and> set (dirs_upto env f0 s k) \<subseteq> D"
    and entry: "entry \<in> set (listing f0 p)"
    and same: "listing (fs st) = listing f0"
  shows "touches_only A D st (processEntries env p d m [entry] st)"
proof -
  let ?path = "filepath_Join env p (Name entry)"
  consider (dir) "IsDir entry" "d < m"
    | (image) "\<not> IsDir entry" "supported (strings_ToLower env (filepath_Ext (Name entry)))"
    | (skip) "\<not> (IsDir entry \<and> d < m)"
        "\<not> (\<not> IsDir entry \<and> supported (strings_ToLower env (filepath_Ext (Name entry))))"
    by blast
  then show ?thesis
  proof cases
    case dir
    let ?r = "processDirectory env ?path (d + 1) m st"
    have member: "?path \<in> set (subdirs env f0 p)"
      by (rule subdir_member [OF entry dir(1)])
    have sets: "set (files_upto env (fs st) ?path k) \<subseteq> A"
        "set (dirs_upto env (fs st) ?path k) \<subseteq> D"
      using below [OF dir(2) member]
      by (simp_all add: files_upto_cong [OF same] dirs_upto_cong [OF same])
    have walked: "touches_only A D st (snd ?r)"
      by (rule touches_only_mono [OF sub [OF dir(2)] sets])
    have "?path \<in> D"
      using below [OF dir(2) member] self_in_dirs_upto [of ?path env f0 k] by blast
    then have "touches_only A D st
        ((snd ?r)\<lparr>stderr := stderr (snd ?r) @ [ErrorProcessingDirectory ?path err]\<rparr>)" for err
      by (rule touches_only_log_dir [OF walked])
    with walked dir show ?thesis
      by (simp add: processEntries_single split: option.splits)
  next
    case image
    let ?r = "processFile env ?path st"
    have member: "?path \<in> A"
      using image_file_member [OF entry image] files by blast
    then have processed: "touches_only A D st (snd ?r)"
      by (intro touches_only_mono [OF processFile_touches [of ?path "{}"]]) simp_all
    have "touches_only A D st
        ((snd ?r)\<lparr>stderr := stderr (snd ?r) @ [ErrorProcessingFile ?path err]\<rparr>)" for err
      by (rule touches_only_log_file [OF processed member])
    with processed image show ?thesis
      by (simp add: processEntries_single split: option.splits)
  next
    case skip
    then have "processEntries env p d m [entry] st = st"
      by (auto simp: processEntries_single)
    then show ?thesis
      by simp
  qed
qed

lemma processEntries_touches:
  assumes sub: "\<And>s st'. d < m \<Longrightarrow>
        touches_only (set (files_upto env (fs st') s k)) (set (dirs_upto env (fs st') s k)) st'
          (snd (processDirectory env s (d + 1) m st'))"
    and files: "set (image_files env f0 p) \<subseteq> A"
    and below: "\<And>s. d < m \<Longrightarrow> s \<in> set (subdirs env f0 p) \<Longrightarrow>
        set (files_upto env f0 s k) \<subseteq> A \<and> set (dirs_upto env f0 s k) \<subseteq> D"
  shows "set entries \<subseteq> set (listing f0 p) \<Longrightarrow> listing (fs st) = listing f0 \<Longrightarrow>
         touches_only A D st (processEntries env p d m entries st)"
proof (induction entries arbitrary: st)
  case Nil
  show ?case by simp
next
  case (Cons entry later)
  let ?st1 = "processEntries env p d m [entry] st"
  from Cons.prems have entry: "entry \<in> set (listing f0 p)" by simp
  have one: "touches_only A D st ?st1"
    by (rule processEntries_single_touches [OF sub files below entry Cons.prems(2)])
  then have "listing (fs ?st1) = listing f0"
    using touches_only_listing [OF one] Cons.prems(2) by simp
  with Cons.prems have "touches_only A D ?st1 (processEntries env p d m later ?st1)"
    by (intro Cons.IH) simp_all
  with one have "touches_only A D st (processEntries env p d m later ?st1)"
    by (rule touches_only_trans)
  then show ?case
    by (simp only: processEntries_Cons [of env p d m entry later st])
qed

lemma processDirectory_touches:
  "nat (m - d) = n \<Longrightarrow>
   touches_only (set (files_upto env (fs st) p n)) (set (dirs_upto env (fs st) p n)) st
     (snd (processDirectory env p d m st))"
proof (induction n arbitrary: p d st)
  case 0
  show ?case
  proof (cases "d \<le> m")
    case False
    then show ?thesis by (simp add: processDirectory_beyond)
  next
    case True
    with 0 have top: "\<not> d < m" by simp
    show ?thesis
    proof (cases "fst (os_ReadDir p st)")
      case (Inl err)
      then show ?thesis
        by (simp add: processDirectory_unreadable [OF True Inl] only_faults_touches)
    next
      case (Inr entries)
      let ?st1 = "snd (os_ReadDir p st)"
      have quiet: "only_faults st ?st1" by simp
      then have same: "fs ?st1 = fs st" by (simp add: only_faults_def)
      have entries: "listing (fs st) p = entries"
        using os_ReadDir_Inr [OF Inr] by (simp add: listing_def)
      have "touches_only (set (files_upto env (fs st) p 0)) (set (dirs_upto env (fs st) p 0))
              ?st1 (processEntries env p d m entries ?st1)"
        by (rule processEntries_touches [where k = 0 and ?f0.0 = "fs st"])
           (use top entries same in \<open>simp_all add: set_files_upto_0\<close>)
      with only_faults_touches [OF quiet] show ?thesis
        unfolding processDirectory_readable [OF True Inr] snd_conv
        by (rule touches_only_trans)
    qed
  qed
next
  case (Suc n)
  then have le: "d \<le> m" and deeper: "nat (m - (d + 1)) = n"
    by simp_all
  show ?case
  proof (cases "fst (os_ReadDir p st)")
    case (Inl err)
    then show ?thesis
      by (simp add: processDirectory_unreadable [OF le Inl] only_faults_touches)
  next
    case (Inr entries)
    let ?st1 = "snd (os_ReadDir p st)"
    have quiet: "only_faults st ?st1" by simp
    then have same: "fs ?st1 = fs st" by (simp add: only_faults_def)
    have entries: "listing (fs st) p = entries"
      using os_ReadDir_Inr [OF Inr] by (simp add: listing_def)
    have "touches_only (set (files_upto env (fs st) p (Suc n)))
            (set (dirs_upto env (fs st) p (Suc n)))
            ?st1 (processEntries env p d m entries ?st1)"
    proof (rule processEntries_touches [where k = n and ?f0.0 = "fs st"])
      show "touches_only (set (files_upto env (fs st') s n)) (set (dirs_upto env (fs st') s n)) st'
          (snd (processDirectory env s (d + 1) m st'))" for s st'
        by (rule Suc.IH [OF deeper])
      show "set (image_files env (fs st) p) \<subseteq> set (files_upto env (fs st) p (Suc n))"
        by (rule image_files_subset)
      show "set (files_upto env (fs st) s n) \<subseteq> set (files_upto env (fs st) p (Suc n)) \<and>
            set (dirs_upto env (fs st) s n) \<subseteq> set (dirs_upto env (fs st) p (Suc n))"
        if "s \<in> set (subdirs env (fs st) p)" for s
        using that by (auto simp: set_files_upto_Suc set_dirs_upto_Suc)
      show "set entries \<subseteq> set (listing (fs st) p)"
        by (simp add: entries)
      show "listing (fs ?st1) = listing (fs st)"
        by (simp only: same)
    qed
    with only_faults_touches [OF quiet] show ?thesis
      unfolding processDirectory_readable [OF le Inr] snd_conv
      by (rule touches_only_trans)
  qed
qed

subsection \<open>The walk reaches every file within the levels up to the maximum depth\<close>

lemma touches_only_UNIV: "touches_only A D st st' \<Longrightarrow> touches_only UNIV UNIV st st'"
  by (rule touches_only_mono) simp_all

lemma attempted_eq:
  "stdout st' = stdout st @ outs \<Longrightarrow> stderr st' = stderr st @ errs \<Longrightarrow>
   attempted st st' = List.map_filter out_path outs @ List.map_filter err_file_path errs"
  by (simp add: attempted_def new_stdout_def new_stderr_def)

lemma attempted_trans:
  assumes "touches_only A D a b" and "touches_only A' D' b c"
  shows "set (attempted a c) = set (attempted a b) \<union> set (attempted b c)"
proof -
  from assms(1) obtain o1 e1 where 1: "stdout b = stdout a @ o1" "stderr b = stderr a @ e1"
    unfolding touches_only_def by blast
  from assms(2) obtain o2 e2 where 2: "stdout c = stdout b @ o2" "stderr c = stderr b @ e2"
    unfolding touches_only_def by blast
  have "attempted a b = List.map_filter out_path o1 @ List.map_filter err_file_path e1"
    by (rule attempted_eq [OF 1])
  moreover have "attempted b c = List.map_filter out_path o2 @ List.map_filter err_file_path e2"
    by (rule attempted_eq [OF 2])
  moreover have "attempted a c =
      List.map_filter out_path (o1 @ o2) @ List.map_filter err_file_path (e1 @ e2)"
    by (rule attempted_eq) (simp_all add: 1 2)
  ultimately show ?thesis
    by (auto simp: map_filter_append)
qed

lemma attempted_log_dir:
  assumes "touches_only A D st st'"
  shows "set (attempted st (st'\<lparr>stderr := stderr st' @ [ErrorProcessingDirectory s err]\<rparr>))
         = set (attempted st st')"
proof -
  from assms obtain outs errs where o: "stdout st' = stdout st @ outs" "stderr st' = stderr st @ errs"
    unfolding touches_only_def by blast
  have "attempted st (st'\<lparr>stderr := stderr st' @ [ErrorProcessingDirectory s err]\<rparr>) =
      List.map_filter out_path outs
      @ List.map_filter err_file_path (errs @ [ErrorProcessingDirectory s err])"
    by (rule attempted_eq) (simp_all add: o)
  then show ?thesis
    by (simp add: attempted_eq [OF o] map_filter_append)
qed

lemma attempted_log_file:
  assumes "touches_only A D st st'"
  shows "set (attempted st (st'\<lparr>stderr := stderr st' @ [ErrorProcessingFile p err]\<rparr>))
         = insert p (set (attempted st st'))"
proof -
  from assms obtain outs errs where o: "stdout st' = stdout st @ outs" "stderr st' = stderr st @ errs"
    unfolding touches_only_def by blast
  have "attempted st (st'\<lparr>stderr := stderr st' @ [ErrorProcessingFile p err]\<rparr>) =
      List.map_filter out_path outs
      @ List.map_filter err_file_path (errs @ [ErrorProcessingFile p err])"
    by (rule attempted_eq) (simp_all add: o)
  then show ?thesis
    by (simp add: attempted_eq [OF o] map_filter_append)
qed

lemma processFile_attempted_success:
  "fst (processFile env path st) = None \<Longrightarrow>
   path \<in> set (attempted st (snd (processFile env path st)))"
  using processFile_reports [of env path st] by (simp add: attempted_def)

lemma processDirectory_grows:
  "touches_only UNIV UNIV st (snd (processDirectory env p d m st))"
  by (rule touches_only_UNIV) (rule processDirectory_touches [OF refl])

text \<open>Every state the loop body leaves extends the streams of the state it was given.\<close>

lemma processEntries_single_grows:
  "touches_only UNIV UNIV st (processEntries env p d m [entry] st)"
proof -
  let ?path = "filepath_Join env p (Name entry)"
  have dir: "touches_only UNIV UNIV st
      ((snd (processDirectory env ?path (d + 1) m st))
         \<lparr>stderr := stderr (snd (processDirectory env ?path (d + 1) m st))
            @ [ErrorProcessingDirectory ?path err]\<rparr>)" for err
    by (rule touches_only_log_dir [OF processDirectory_grows]) simp
  have img: "touches_only UNIV UNIV st (snd (processFile env ?path st))"
    by (rule touches_only_UNIV) (rule processFile_touches [of ?path "{}"])
  then have "touches_only UNIV UNIV st
      ((snd (processFile env ?path st))
         \<lparr>stderr := stderr (snd (processFile env ?path st))
            @ [ErrorProcessingFile ?path err]\<rparr>)" for err
    by (rule touches_only_log_file) simp
  with dir img processDirectory_grows [of st env ?path "d + 1" m] show ?thesis
    by (simp add: processEntries_single split: option.splits)
qed

lemma processEntries_grows:
  "touches_only UNIV UNIV st (processEntries env p d m entries st)"
proof (induction entries arbitrary: st)
  case Nil
  show ?case by simp
next
  case (Cons entry later)
  have "touches_only UNIV UNIV st
     (processEntries env p d m later (processEntries env p d m [entry] st))"
    by (rule touches_only_trans [OF processEntries_single_grows Cons.IH])
  then show ?case
    by (simp only: processEntries_Cons [of env p d m entry later st])
qed

lemma touches_only_quiet: "touches_only A D st st' \<Longrightarrow> faults st = [] \<Longrightarrow> faults st' = []"
  by (simp add: touches_only_def)

lemma processEntries_single_complete:
  assumes sub: "\<And>s st'. d < m \<Longrightarrow> faults st' = [] \<Longrightarrow>
        set (files_upto env (fs st') s k)
          \<subseteq> set (attempted st' (snd (processDirectory env s (d + 1) m st')))"
    and quiet: "faults st = []"
    and same: "listing (fs st) = listing f0"
  shows "(\<not> IsDir entry \<and> supported (strings_ToLower env (filepath_Ext (Name entry))) \<longrightarrow>
            filepath_Join env p (Name entry)
              \<in> set (attempted st (processEntries env p d m [entry] st)))
       \<and> (IsDir entry \<and> d < m \<longrightarrow>
            set (files_upto env f0 (filepath_Join env p (Name entry)) k)
              \<subseteq> set (attempted st (processEntries env p d m [entry] st)))"
proof (intro conjI impI)
  let ?path = "filepath_Join env p (Name entry)"
  assume image: "\<not> IsDir entry \<and> supported (strings_ToLower env (filepath_Ext (Name entry)))"
  let ?r = "processFile env ?path st"
  show "?path \<in> set (attempted st (processEntries env p d m [entry] st))"
  proof (cases "fst ?r")
    case None
    with image show ?thesis
      by (simp add: processEntries_single processFile_attempted_success)
  next
    case (Some err)
    have "?path \<in> set (attempted st
        ((snd ?r)\<lparr>stderr := stderr (snd ?r) @ [ErrorProcessingFile ?path err]\<rparr>))"
      by (simp add: attempted_log_file [OF processFile_touches [of ?path "{}"]])
    with image Some show ?thesis
      by (simp add: processEntries_single)
  qed
next
  let ?path = "filepath_Join env p (Name entry)"
  assume dir: "IsDir entry \<and> d < m"
  let ?r = "processDirectory env ?path (d + 1) m st"
  have "set (files_upto env (fs st) ?path k) \<subseteq> set (attempted st (snd ?r))"
    using sub [of st ?path] dir quiet by simp
  then have walked: "set (files_upto env f0 ?path k) \<subseteq> set (attempted st (snd ?r))"
    by (simp add: files_upto_cong [OF same])
  show "set (files_upto env f0 ?path k)
          \<subseteq> set (attempted st (processEntries env p d m [entry] st))"
  proof (cases "fst ?r")
    case None
    with dir walked show ?thesis
      by (simp add: processEntries_single)
  next
    case (Some err)
    have "set (attempted st
        ((snd ?r)\<lparr>stderr := stderr (snd ?r) @ [ErrorProcessingDirectory ?path err]\<rparr>))
        = set (attempted st (snd ?r))"
      by (rule attempted_log_dir [OF processDirectory_grows])
    with dir walked Some show ?thesis
      by (simp add: processEntries_single)
  qed
qed

lemma processEntries_complete:
  assumes sub: "\<And>s st'. d < m \<Longrightarrow> faults st' = [] \<Longrightarrow>
        set (files_upto env (fs st') s k)
          \<subseteq> set (attempted st' (snd (processDirectory env s (d + 1) m st')))"
  shows "faults st = [] \<Longrightarrow> listing (fs st) = listing f0 \<Longrightarrow>
       (\<forall>entry \<in> set entries.
          (\<not> IsDir entry \<and> supported (strings_ToLower env (filepath_Ext (Name entry))) \<longrightarrow>
            filepath_Join env p (Name entry)
              \<in> set (attempted st (processEntries env p d m entries st)))
        \<and> (IsDir entry \<and> d < m \<longrightarrow>
            set (files_upto env f0 (filepath_Join env p (Name entry)) k)
              \<subseteq> set (attempted st (processEntries env p d m entries st))))"
proof (induction entries arbitrary: st)
  case Nil
  show ?case by simp
next
  case (Cons first later)
  let ?st1 = "processEntries env p d m [first] st"
  let ?st2 = "processEntries env p d m later ?st1"
  have step: "processEntries env p d m (first # later) st = ?st2"
    by (rule processEntries_Cons)
  have one: "touches_only UNIV UNIV st ?st1"
    by (rule processEntries_single_grows)
  have rest: "touches_only UNIV UNIV ?st1 ?st2"
    by (rule processEntries_grows)
  have union: "set (attempted st ?st2) = set (attempted st ?st1) \<union> set (attempted ?st1 ?st2)"
    by (rule attempted_trans [OF one rest])
  have quiet1: "faults ?st1 = []"
    by (rule touches_only_quiet [OF one Cons.prems(1)])
  have same1: "listing (fs ?st1) = listing f0"
    using touches_only_listing [OF one] Cons.prems(2) by simp
  note head = processEntries_single_complete [OF sub Cons.prems, of first p]
  note tail = Cons.IH [OF quiet1 same1]
  show ?case
    unfolding step union using head tail by auto
qed

lemma files_upto_no_listing:
  "listing f p = [] \<Longrightarrow> set (files_upto env f p n) = {}"
  by (cases n) (simp_all add: set_files_upto_0 set_files_upto_Suc image_files_def subdirs_def)

lemma processDirectory_complete:
  "nat (m - d) = n \<Longrightarrow> d \<le> m \<Longrightarrow> faults st = [] \<Longrightarrow>
   set (files_upto env (fs st) p n) \<subseteq> set (attempted st (snd (processDirectory env p d m st)))"
proof (induction n arbitrary: p d st)
  case 0
  then have top: "\<not> d < m" by simp
  show ?case
  proof (cases "\<exists>entries. fs st p = Some (Dir entries)")
    case False
    then have "listing (fs st) p = []"
      by (auto simp: listing_def split: option.splits node.splits)
    then show ?thesis
      by (simp add: files_upto_no_listing)
  next
    case True
    then obtain entries where entries: "fs st p = Some (Dir entries)" by blast
    have read: "os_ReadDir p st = (Inr entries, st)"
      by (rule os_ReadDir_quiet [OF "0.prems"(3) entries])
    then have run: "processDirectory env p d m st = (None, processEntries env p d m entries st)"
      using processDirectory_readable [OF "0.prems"(2), of p st entries env]
      by (simp del: os_ReadDir_state)
    have "\<forall>entry \<in> set entries.
          (\<not> IsDir entry \<and> supported (strings_ToLower env (filepath_Ext (Name entry))) \<longrightarrow>
            filepath_Join env p (Name entry)
              \<in> set (attempted st (processEntries env p d m entries st)))
        \<and> (IsDir entry \<and> d < m \<longrightarrow>
            set (files_upto env (fs st) (filepath_Join env p (Name entry)) 0)
              \<subseteq> set (attempted st (processEntries env p d m entries st)))"
      by (rule processEntries_complete [OF _ "0.prems"(3) refl]) (use top in simp)
    then show ?thesis
      using entries by (auto simp: run set_files_upto_0 image_files_def listing_def)
  qed
next
  case (Suc n)
  then have deeper: "nat (m - (d + 1)) = n" and less: "d < m"
    by simp_all
  show ?case
  proof (cases "\<exists>entries. fs st p = Some (Dir entries)")
    case False
    then have "listing (fs st) p = []"
      by (auto simp: listing_def split: option.splits node.splits)
    then show ?thesis
      by (simp add: files_upto_no_listing)
  next
    case True
    then obtain entries where entries: "fs st p = Some (Dir entries)" by blast
    have read: "os_ReadDir p st = (Inr entries, st)"
      by (rule os_ReadDir_quiet [OF Suc.prems(3) entries])
    then have run: "processDirectory env p d m st = (None, processEntries env p d m entries st)"
      using processDirectory_readable [OF Suc.prems(2), of p st entries env]
      by (simp del: os_ReadDir_state)
    have sub: "set (files_upto env (fs st') s n)
          \<subseteq> set (attempted st' (snd (processDirectory env s (d + 1) m st')))"
      if "faults st' = []" for s st'
      by (rule Suc.IH [OF deeper _ that]) (use less in simp)
    have "\<forall>entry \<in> set entries.
          (\<not> IsDir entry \<and> supported (strings_ToLower env (filepath_Ext (Name entry))) \<longrightarrow>
            filepath_Join env p (Name entry)
              \<in> set (attempted st (processEntries env p d m entries st)))
        \<and> (IsDir entry \<and> d < m \<longrightarrow>
            set (files_upto env (fs st) (filepath_Join env p (Name entry)) n)
              \<subseteq> set (attempted st (processEntries env p d m entries st)))"
      by (rule processEntries_complete [OF sub Suc.prems(3) refl])
    then show ?thesis
      using entries less
      by (auto simp: run set_files_upto_Suc image_files_def subdirs_def listing_def)
  qed
qed


text \<open>The definitions a run in the concrete environment unfolds.\<close>

lemmas toy_run =
  processFile_def toy_env_def filepath_Ext_def toy_ToLower_def
     supported_def supportedExtensions_def calculateFileChecksum_def os_Open_def next_fault_def
     file_ReadAll_def estimate_def estimatePngCompressionLevel_def file_Stat_def pngLevelOf_def
     imaging_Open_def toy_Decode_def os_Create_def saveImage_def file_Write_def toy_level_code_def
     report_def hextable_def Let_def os_ReadDir_def processDirectory.simps processEntries.simps

subsection \<open>The walk as a sequence of calls\<close>

lemma file_step_alt:
  "file_step env p st =
     (case fst (processFile env p st) of
        Some err \<Rightarrow> (snd (processFile env p st))
           \<lparr>stderr := stderr (snd (processFile env p st)) @ [ErrorProcessingFile p err]\<rparr>
      | None \<Rightarrow> snd (processFile env p st))"
  by (simp add: file_step_def split: prod.splits option.splits)

lemma dir_step_alt:
  "dir_step env p d m st =
     (case fst (processDirectory env p (d + 1) m st) of
        Some err \<Rightarrow> (snd (processDirectory env p (d + 1) m st))
           \<lparr>stderr := stderr (snd (processDirectory env p (d + 1) m st))
              @ [ErrorProcessingDirectory p err]\<rparr>
      | None \<Rightarrow> snd (processDirectory env p (d + 1) m st))"
  by (simp add: dir_step_def split: prod.splits option.splits)

lemma processEntries_single_steps:
  "processEntries env path d m [entry] st =
     (if IsDir entry \<and> d < m then dir_step env (filepath_Join env path (Name entry)) d m st
      else if \<not> IsDir entry \<and> supported (strings_ToLower env (filepath_Ext (Name entry)))
      then file_step env (filepath_Join env path (Name entry)) st
      else st)"
  by (simp add: processEntries_single file_step_alt dir_step_alt)

lemma walk_steps_trans:
  "walk_steps env A D b c \<Longrightarrow> walk_steps env A D a b \<Longrightarrow> walk_steps env A D a c"
  by (induction rule: walk_steps.induct) (blast intro: walk_steps.intros)+

lemma walk_steps_mono:
  "walk_steps env A D a b \<Longrightarrow> A \<subseteq> A' \<Longrightarrow> D \<subseteq> D' \<Longrightarrow> walk_steps env A' D' a b"
  by (induction rule: walk_steps.induct) (blast intro: walk_steps.intros)+

lemma processDirectory_error:
  "fst (processDirectory env p d m st) = Some err \<Longrightarrow>
   \<exists>cause. fst (os_ReadDir p st) = Inl cause \<and> err = FailedToReadDirectory cause \<and>
      snd (processDirectory env p d m st) = snd (os_ReadDir p st)"
  by (cases "os_ReadDir p st")
     (auto simp: processDirectory.simps simp del: os_ReadDir_state split: if_splits sum.splits)

lemma processEntries_single_walk:
  assumes sub: "\<And>s st'. d < m \<Longrightarrow>
        walk_steps env (set (files_upto env (fs st') s k)) (set (dirs_upto env (fs st') s k)) st'
          (snd (processDirectory env s (d + 1) m st'))"
    and files: "set (image_files env f0 p) \<subseteq> A"
    and below: "\<And>s. d < m \<Longrightarrow> s \<in> set (subdirs env f0 p) \<Longrightarrow>
        set (files_upto env f0 s k) \<subseteq> A \<and> set (dirs_upto env f0 s k) \<subseteq> D"
    and entry: "entry \<in> set (listing f0 p)"
    and same: "listing (fs st) = listing f0"
  shows "walk_steps env A D st (processEntries env p d m [entry] st)"
proof -
  let ?path = "filepath_Join env p (Name entry)"
  consider (dir) "IsDir entry" "d < m"
    | (image) "\<not> IsDir entry" "supported (strings_ToLower env (filepath_Ext (Name entry)))"
    | (skip) "\<not> (IsDir entry \<and> d < m)"
        "\<not> (\<not> IsDir entry \<and> supported (strings_ToLower env (filepath_Ext (Name entry))))"
    by blast
  then show ?thesis
  proof cases
    case dir
    let ?r = "processDirectory env ?path (d + 1) m st"
    have member: "?path \<in> set (subdirs env f0 p)"
      by (rule subdir_member [OF entry dir(1)])
    have sets: "set (files_upto env (fs st) ?path k) \<subseteq> A"
        "set (dirs_upto env (fs st) ?path k) \<subseteq> D"
      using below [OF dir(2) member]
      by (simp_all add: files_upto_cong [OF same] dirs_upto_cong [OF same])
    have walked: "walk_steps env A D st (snd ?r)"
      by (rule walk_steps_mono [OF sub [OF dir(2)] sets])
    have inD: "?path \<in> D"
      using below [OF dir(2) member] self_in_dirs_upto [of ?path env f0 k] by blast
    have step: "processEntries env p d m [entry] st = dir_step env ?path d m st"
      using dir by (simp add: processEntries_single_steps)
    show ?thesis
    proof (cases "fst ?r")
      case None
      with walked show ?thesis
        by (simp add: step dir_step_alt)
    next
      case (Some err)
      from processDirectory_error [OF Some] obtain cause where
        cause: "fst (os_ReadDir ?path st) = Inl cause" "err = FailedToReadDirectory cause"
          "snd ?r = snd (os_ReadDir ?path st)"
        by blast
      have "walk_steps env A D st
         ((snd (os_ReadDir ?path st))
            \<lparr>stderr := stderr (snd (os_ReadDir ?path st))
               @ [ErrorProcessingDirectory ?path (FailedToReadDirectory cause)]\<rparr>)"
        by (rule walk_steps.unreadable [OF walk_steps.stay inD cause(1)])
      then show ?thesis
        unfolding step dir_step_alt Some option.case cause(2) cause(3) .
    qed
  next
    case image
    have member: "?path \<in> A"
      using image_file_member [OF entry image] files by blast
    have "walk_steps env A D st (file_step env ?path st)"
      by (rule walk_steps.image [OF walk_steps.stay member])
    with image show ?thesis
      by (simp add: processEntries_single_steps)
  next
    case skip
    then have "processEntries env p d m [entry] st = st"
      by (auto simp: processEntries_single_steps)
    then show ?thesis
      by (simp add: walk_steps.stay)
  qed
qed

lemma processEntries_walk:
  assumes sub: "\<And>s st'. d < m \<Longrightarrow>
        walk_steps env (set (files_upto env (fs st') s k)) (set (dirs_upto env (fs st') s k)) st'
          (snd (processDirectory env s (d + 1) m st'))"
    and files: "set (image_files env f0 p) \<subseteq> A"
    and below: "\<And>s. d < m \<Longrightarrow> s \<in> set (subdirs env f0 p) \<Longrightarrow>
        set (files_upto env f0 s k) \<subseteq> A \<and> set (dirs_upto env f0 s k) \<subseteq> D"
  shows "set entries \<subseteq> set (listing f0 p) \<Longrightarrow> listing (fs st) = listing f0 \<Longrightarrow>
         walk_steps env A D st (processEntries env p d m entries st)"
proof (induction entries arbitrary: st)
  case Nil
  show ?case by (simp add: walk_steps.stay)
next
  case (Cons entry later)
  let ?st1 = "processEntries env p d m [entry] st"
  from Cons.prems have entry: "entry \<in> set (listing f0 p)" by simp
  have one: "walk_steps env A D st ?st1"
    by (rule processEntries_single_walk [OF sub files below entry Cons.prems(2)])
  have "listing (fs ?st1) = listing f0"
    using touches_only_listing [OF processEntries_single_grows [of st env p d m entry]]
      Cons.prems(2)
    by simp
  with Cons.prems have "walk_steps env A D ?st1 (processEntries env p d m later ?st1)"
    by (intro Cons.IH) simp_all
  then have "walk_steps env A D st (processEntries env p d m later ?st1)"
    using one by (rule walk_steps_trans)
  then show ?case
    by (simp only: processEntries_Cons [of env p d m entry later st])
qed

lemma processDirectory_walk:
  "nat (m - d) = n \<Longrightarrow>
   walk_steps env (set (files_upto env (fs st) p n)) (set (dirs_upto env (fs st) p n)) st
     (snd (processDirectory env p d m st))"
proof (induction n arbitrary: p d st)
  case 0
  show ?case
  proof (cases "d \<le> m")
    case False
    then show ?thesis by (simp add: processDirectory_beyond walk_steps.stay)
  next
    case True
    with 0 have top: "\<not> d < m" by simp
    let ?st1 = "snd (os_ReadDir p st)"
    have read: "walk_steps env (set (files_upto env (fs st) p 0)) (set (dirs_upto env (fs st) p 0))
                  st ?st1"
      by (rule walk_steps.listed [OF walk_steps.stay self_in_dirs_upto])
    show ?thesis
    proof (cases "fst (os_ReadDir p st)")
      case (Inl err)
      from read show ?thesis
        unfolding processDirectory_unreadable [OF True Inl] snd_conv .
    next
      case (Inr entries)
      have quiet: "only_faults st ?st1" by simp
      then have same: "fs ?st1 = fs st" by (simp add: only_faults_def)
      have entries: "listing (fs st) p = entries"
        using os_ReadDir_Inr [OF Inr] by (simp add: listing_def)
      have "walk_steps env (set (files_upto env (fs st) p 0)) (set (dirs_upto env (fs st) p 0))
              ?st1 (processEntries env p d m entries ?st1)"
      proof (rule processEntries_walk [where k = 0 and ?f0.0 = "fs st"])
        show "walk_steps env (set (files_upto env (fs st') s 0)) (set (dirs_upto env (fs st') s 0))
            st' (snd (processDirectory env s (d + 1) m st'))" if "d < m" for s st'
          using that top by simp
        show "set (image_files env (fs st) p) \<subseteq> set (files_upto env (fs st) p 0)"
          by (rule image_files_subset)
        show "set (files_upto env (fs st) s 0) \<subseteq> set (files_upto env (fs st) p 0) \<and>
              set (dirs_upto env (fs st) s 0) \<subseteq> set (dirs_upto env (fs st) p 0)"
          if "d < m" for s
          using that top by simp
        show "set entries \<subseteq> set (listing (fs st) p)"
          by (simp add: entries)
        show "listing (fs ?st1) = listing (fs st)"
          by (simp only: same)
      qed
      then show ?thesis
        unfolding processDirectory_readable [OF True Inr] snd_conv
        using read by (rule walk_steps_trans)
    qed
  qed
next
  case (Suc n)
  then have le: "d \<le> m" and deeper: "nat (m - (d + 1)) = n"
    by simp_all
  let ?st1 = "snd (os_ReadDir p st)"
  have read: "walk_steps env (set (files_upto env (fs st) p (Suc n)))
                (set (dirs_upto env (fs st) p (Suc n))) st ?st1"
    by (rule walk_steps.listed [OF walk_steps.stay self_in_dirs_upto])
  show ?case
  proof (cases "fst (os_ReadDir p st)")
    case (Inl err)
    from read show ?thesis
      unfolding processDirectory_unreadable [OF le Inl] snd_conv .
  next
    case (Inr entries)
    have quiet: "only_faults st ?st1" by simp
    then have same: "fs ?st1 = fs st" by (simp add: only_faults_def)
    have entries: "listing (fs st) p = entries"
      using os_ReadDir_Inr [OF Inr] by (simp add: listing_def)
    have "walk_steps env (set (files_upto env (fs st) p (Suc n)))
            (set (dirs_upto env (fs st) p (Suc n)))
            ?st1 (processEntries env p d m entries ?st1)"
    proof (rule processEntries_walk [where k = n and ?f0.0 = "fs st"])
      show "walk_steps env (set (files_upto env (fs st') s n)) (set (dirs_upto env (fs st') s n))
          st' (snd (processDirectory env s (d + 1) m st'))" for s st'
        by (rule Suc.IH [OF deeper])
      show "set (image_files env (fs st) p) \<subseteq> set (files_upto env (fs st) p (Suc n))"
        by (rule image_files_subset)
      show "set (files_upto env (fs st) s n) \<subseteq> set (files_upto env (fs st) p (Suc n)) \<and>
            set (dirs_upto env (fs st) s n) \<subseteq> set (dirs_upto env (fs st) p (Suc n))"
        if "s \<in> set (subdirs env (fs st) p)" for s
        using that by (auto simp: set_files_upto_Suc set_dirs_upto_Suc)
      show "set entries \<subseteq> set (listing (fs st) p)"
        by (simp add: entries)
      show "listing (fs ?st1) = listing (fs st)"
        by (simp only: same)
    qed
    then show ?thesis
      unfolding processDirectory_readable [OF le Inr] snd_conv
      using read by (rule walk_steps_trans)
  qed
qed


section \<open>The directory walk: the claims\<close>



text \<open>
  Claim C2. A walk started at depth 0 with maximum depth \<open>N \<ge> 0\<close> works on the files of
  the directories at levels 0 to \<open>N\<close> and on nothing below. The walk is a sequence of
  calls of \<open>processFile\<close> on image files of those directories and of reads of those
  directories, and of nothing else; every path in a new report or error line is such a
  file (or, for a directory error, a directory of those levels); and when no fault is
  injected the paths reported are exactly those files. With \<open>N = 0\<close> they are the image
  files of the starting directory. In the loop, a directory entry is walked, at the
  depth plus one, exactly when the depth is below the maximum, and skipped otherwise; an
  entry that is not a directory is handed to \<open>processFile\<close> exactly when its extension
  is supported; the loop takes the entries one after the other; and \<open>processDirectory\<close>
  returns at once beyond the maximum depth, returns the error of a listing that cannot
  be read, and otherwise runs the loop over the listing.
\<close>

theorem walk_depth_bounded:
  assumes "0 \<le> maxDepth"
  shows
    "walk_steps env (set (files_upto env (fs st) start (nat maxDepth)))
        (set (dirs_upto env (fs st) start (nat maxDepth))) st
        (snd (processDirectory env start 0 maxDepth st))
     \<and> (\<forall>l \<in> set (new_stdout st (snd (processDirectory env start 0 maxDepth st))).
          \<forall>p. out_path l = Some p \<longrightarrow> p \<in> set (files_upto env (fs st) start (nat maxDepth)))
     \<and> (\<forall>l \<in> set (new_stderr st (snd (processDirectory env start 0 maxDepth st))).
          (\<forall>p. err_file_path l = Some p \<longrightarrow>
               p \<in> set (files_upto env (fs st) start (nat maxDepth))) \<and>
          (\<forall>p. err_dir_path l = Some p \<longrightarrow>
               p \<in> set (dirs_upto env (fs st) start (nat maxDepth))))
     \<and> (faults st = [] \<longrightarrow>
          set (attempted st (snd (processDirectory env start 0 maxDepth st)))
            = set (files_upto env (fs st) start (nat maxDepth)))
     \<and> set (files_upto env (fs st) start 0) = set (image_files env (fs st) start)
     \<and> (IsDir entry \<longrightarrow>
          processEntries env path d maxDepth [entry] s =
            (if d < maxDepth then
               (case fst (processDirectory env (filepath_Join env path (Name entry))
                            (d + 1) maxDepth s) of
                  Some err \<Rightarrow>
                    (snd (processDirectory env (filepath_Join env path (Name entry))
                            (d + 1) maxDepth s))
                      \<lparr>stderr :=
                         stderr (snd (processDirectory env (filepath_Join env path (Name entry))
                                        (d + 1) maxDepth s))
                         @ [ErrorProcessingDirectory (filepath_Join env path (Name entry)) err]\<rparr>
                | None \<Rightarrow>
                    snd (processDirectory env (filepath_Join env path (Name entry))
                           (d + 1) maxDepth s))
             else s))
     \<and> (\<not> IsDir entry \<longrightarrow>
          processEntries env path d maxDepth [entry] s =
            (if supported (strings_ToLower env (filepath_Ext (Name entry))) then
               (case processFile env (filepath_Join env path (Name entry)) s of
                  (Some err, s1) \<Rightarrow>
                    s1\<lparr>stderr := stderr s1 @
                      [ErrorProcessingFile (filepath_Join env path (Name entry)) err]\<rparr>
                | (None, s1) \<Rightarrow> s1)
             else s))
     \<and> processEntries env path d maxDepth (entry # later) s =
          processEntries env path d maxDepth later (processEntries env path d maxDepth [entry] s)
     \<and> processEntries env path d maxDepth [] s = s
     \<and> (maxDepth < d \<longrightarrow> processDirectory env path d maxDepth s = (None, s))
     \<and> (d \<le> maxDepth \<and> fst (os_ReadDir path s) = Inr entries \<longrightarrow>
          processDirectory env path d maxDepth s =
            (None, processEntries env path d maxDepth entries (snd (os_ReadDir path s))))
     \<and> (d \<le> maxDepth \<and> fst (os_ReadDir path s) = Inl cause \<longrightarrow>
          processDirectory env path d maxDepth s =
            (Some (FailedToReadDirectory cause), snd (os_ReadDir path s)))"
proof -
  let ?st' = "snd (processDirectory env start 0 maxDepth st)"
  let ?A = "set (files_upto env (fs st) start (nat maxDepth))"
  let ?D = "set (dirs_upto env (fs st) start (nat maxDepth))"
  have n: "nat (maxDepth - 0) = nat maxDepth" by simp
  have calls: "walk_steps env ?A ?D st ?st'"
    by (rule processDirectory_walk [OF n])
  have inv: "touches_only ?A ?D st ?st'"
    by (rule processDirectory_touches [OF n])
  then obtain outs errs where
    outs: "stdout ?st' = stdout st @ outs" "\<forall>l \<in> set outs. \<forall>p. out_path l = Some p \<longrightarrow> p \<in> ?A"
    and errs: "stderr ?st' = stderr st @ errs"
      "\<forall>l \<in> set errs. (\<forall>p. err_file_path l = Some p \<longrightarrow> p \<in> ?A) \<and>
                           (\<forall>p. err_dir_path l = Some p \<longrightarrow> p \<in> ?D)"
    unfolding touches_only_def by blast
  have new: "new_stdout st ?st' = outs" "new_stderr st ?st' = errs"
    by (simp_all add: new_stdout_def new_stderr_def outs(1) errs(1))
  have sound: "set (attempted st ?st') \<subseteq> ?A"
    using outs(2) errs(2)
    by (auto simp: attempted_eq [OF outs(1) errs(1)] set_map_filter_eq)
  have complete: "?A \<subseteq> set (attempted st ?st')" if "faults st = []"
    by (rule processDirectory_complete [OF n _ that]) (use assms in simp)
  have level0: "set (files_upto env (fs st) start 0) = set (image_files env (fs st) start)"
    by (rule set_files_upto_0)
  have descend: "IsDir entry \<longrightarrow>
          processEntries env path d maxDepth [entry] s =
            (if d < maxDepth then
               (case fst (processDirectory env (filepath_Join env path (Name entry))
                            (d + 1) maxDepth s) of
                  Some err \<Rightarrow>
                    (snd (processDirectory env (filepath_Join env path (Name entry))
                            (d + 1) maxDepth s))
                      \<lparr>stderr :=
                         stderr (snd (processDirectory env (filepath_Join env path (Name entry))
                                        (d + 1) maxDepth s))
                         @ [ErrorProcessingDirectory (filepath_Join env path (Name entry)) err]\<rparr>
                | None \<Rightarrow>
                    snd (processDirectory env (filepath_Join env path (Name entry))
                           (d + 1) maxDepth s))
             else s)"
    by (simp add: processEntries_single)
  have image: "\<not> IsDir entry \<longrightarrow>
          processEntries env path d maxDepth [entry] s =
            (if supported (strings_ToLower env (filepath_Ext (Name entry))) then
               (case processFile env (filepath_Join env path (Name entry)) s of
                  (Some err, s1) \<Rightarrow>
                    s1\<lparr>stderr := stderr s1 @
                      [ErrorProcessingFile (filepath_Join env path (Name entry)) err]\<rparr>
                | (None, s1) \<Rightarrow> s1)
             else s)"
    by (simp add: processEntries_single_steps file_step_def)
  have loop: "processEntries env path d maxDepth (entry # later) s =
          processEntries env path d maxDepth later (processEntries env path d maxDepth [entry] s)"
    by (rule processEntries_Cons)
  have empty: "processEntries env path d maxDepth [] s = s"
    by simp
  have beyond: "maxDepth < d \<longrightarrow> processDirectory env path d maxDepth s = (None, s)"
    by (simp add: processDirectory_beyond)
  have readable: "d \<le> maxDepth \<and> fst (os_ReadDir path s) = Inr entries \<longrightarrow>
          processDirectory env path d maxDepth s =
            (None, processEntries env path d maxDepth entries (snd (os_ReadDir path s)))"
    by (simp add: processDirectory_readable del: os_ReadDir_state)
  have failed: "d \<le> maxDepth \<and> fst (os_ReadDir path s) = Inl cause \<longrightarrow>
          processDirectory env path d maxDepth s =
            (Some (FailedToReadDirectory cause), snd (os_ReadDir path s))"
    by (simp add: processDirectory_unreadable del: os_ReadDir_state)
  from sound complete have exact: "faults st = [] \<longrightarrow> set (attempted st ?st') = ?A"
    by blast
  show ?thesis
    unfolding new
    by (intro conjI calls outs(2) errs(2) exact level0 descend image loop empty beyond readable
        failed)
qed

theorem walk_depth_bounded_witness:
  "(0::int) \<le> 1
   \<and> faults toy_tree = []
   \<and> files_upto (toy_env False) (fs toy_tree) ''d'' (nat 1) = [''d/a.png'', ''d/sub/b.png'']
   \<and> set (attempted toy_tree (snd (processDirectory (toy_env False) ''d'' 0 1 toy_tree)))
       = {''d/a.png'', ''d/sub/b.png''}
   \<and> walk_steps (toy_env False) {''d/a.png'', ''d/sub/b.png''} {''d'', ''d/sub''} toy_tree
        (snd (processDirectory (toy_env False) ''d'' 0 1 toy_tree))
   \<and> fs (snd (processDirectory (toy_env False) ''d'' 0 1 toy_tree)) ''d/a.png''
       = Some (File [80, 1, 1, 1, 8])
   \<and> fs (snd (processDirectory (toy_env False) ''d'' 0 1 toy_tree)) ''d/sub/b.png''
       = Some (File [80, 1, 1, 1, 9])
   \<and> fs (snd (processDirectory (toy_env False) ''d'' 0 1 toy_tree)) ''d/sub/deep/c.png''
       = Some (File [80, 1, 1, 9])
   \<and> fs (snd (processDirectory (toy_env False) ''d'' 0 0 toy_tree)) ''d/sub/b.png''
       = Some (File [80, 1, 1, 8])"
proof -
  let ?env = "toy_env False"
  let ?st' = "snd (processDirectory ?env ''d'' 0 1 toy_tree)"
  have h1: "(0::int) \<le> 1" by simp
  have h2: "faults toy_tree = []" by (simp add: toy_tree_def)
  have files: "files_upto ?env (fs toy_tree) ''d'' (nat 1) = [''d/a.png'', ''d/sub/b.png'']"
    by (simp add: files_upto_def dirs_upto_def subdirs_def image_files_def listing_def
        toy_tree_def toy_env_def toy_ToLower_def filepath_Ext_def supported_iff)
  have dirs: "dirs_upto ?env (fs toy_tree) ''d'' (nat 1) = [''d'', ''d/sub'']"
    by (simp add: dirs_upto_def subdirs_def listing_def toy_tree_def toy_env_def)
  note inst = walk_depth_bounded [OF h1, of ?env toy_tree "''d''"]
  from inst h2
  have reached: "set (attempted toy_tree ?st') = set (files_upto ?env (fs toy_tree) ''d'' (nat 1))"
    by blast
  from inst
  have calls: "walk_steps ?env (set (files_upto ?env (fs toy_tree) ''d'' (nat 1)))
        (set (dirs_upto ?env (fs toy_tree) ''d'' (nat 1))) toy_tree ?st'"
    by blast
  from reached files
  have c1: "set (attempted toy_tree ?st') = {''d/a.png'', ''d/sub/b.png''}"
    by simp
  from calls files dirs
  have c2: "walk_steps ?env {''d/a.png'', ''d/sub/b.png''} {''d'', ''d/sub''} toy_tree ?st'"
    by simp
  have c3: "fs ?st' ''d/a.png'' = Some (File [80, 1, 1, 1, 8])"
    and c4: "fs ?st' ''d/sub/b.png'' = Some (File [80, 1, 1, 1, 9])"
    and c5: "fs ?st' ''d/sub/deep/c.png'' = Some (File [80, 1, 1, 9])"
    and c6: "fs (snd (processDirectory ?env ''d'' 0 0 toy_tree)) ''d/sub/b.png''
       = Some (File [80, 1, 1, 8])"
    by (simp_all add: toy_run toy_tree_def)
  from h1 h2 files c1 c2 c3 c4 c5 c6 show ?thesis by blast
qed

end
